(* ===== verification/Prelude.thy ===== *)
theory Prelude
  imports Complex_Main "HOL-Library.Multiset"
begin

text \<open>
  Shared vocabulary of the development: the JavaScript run-time behaviour that
  \<open>src/js/grid_zen.js\<close> relies on, written once and reused by every component.
  \<^item> \<open>js_error\<close>: the one exception the code can raise, a \<open>TypeError\<close> from reading
    or writing a property of \<open>undefined\<close>; a fallible operation returns
    \<open>js_error + 'a\<close> (\<open>Inl\<close> the exception) and \<open>js_bind\<close> propagates it.
  \<^item> \<open>js_get\<close>, \<open>js_set\<close>, \<open>js_row\<close>: reading and writing a JavaScript array by a
    number index.  An index outside the array reads \<open>undefined\<close> (\<open>None\<close>); a write
    beyond the end extends the array with holes, which read \<open>undefined\<close> as well; a
    write at a negative index creates a non-index property that no array operation of
    the code ever reads, so the indexed contents are unchanged.
  \<^item> \<open>for_upto\<close> and \<open>for_upto_e\<close>: the loop \<open>for (var i = 0; i < n; i++)\<close> over a
    state, without and with exceptions; \<open>for_each_e\<close> is the same over any list of
    indices, and a nested pair of loops is one loop over \<open>coords n\<close> (row-major order).
\<close>

named_theorems js_simps "evaluation rules of the JavaScript array and loop model"

datatype js_error = TypeError

type_synonym 'a js_result = "js_error + 'a"

definition js_bind :: "'a js_result \<Rightarrow> ('a \<Rightarrow> 'b js_result) \<Rightarrow> 'b js_result" where
  "js_bind m f = (case m of Inl e \<Rightarrow> Inl e | Inr a \<Rightarrow> f a)"

definition js_get :: "'a option list \<Rightarrow> int \<Rightarrow> 'a option" where
  "js_get xs i = (if 0 \<le> i \<and> nat i < length xs then xs ! nat i else None)"

definition js_set :: "'a option list \<Rightarrow> int \<Rightarrow> 'a option \<Rightarrow> 'a option list" where
  "js_set xs i v =
     (if i < 0 then xs
      else if nat i < length xs then xs[nat i := v]
      else xs @ replicate (nat i - length xs) None @ [v])"

definition js_row :: "'a list \<Rightarrow> int \<Rightarrow> 'a option" where
  "js_row xs i = (if 0 \<le> i \<and> nat i < length xs then Some (xs ! nat i) else None)"

text \<open>\<open>a[x][y]\<close> and \<open>a[x][y] = v\<close> on an array of arrays: the outer read of
  \<open>undefined\<close> makes the inner access a \<open>TypeError\<close>.\<close>

definition js_read2 :: "'a option list list \<Rightarrow> int \<Rightarrow> int \<Rightarrow> 'a option js_result" where
  "js_read2 a x y = (case js_row a x of None \<Rightarrow> Inl TypeError | Some row \<Rightarrow> Inr (js_get row y))"

definition js_write2 ::
  "'a option list list \<Rightarrow> int \<Rightarrow> int \<Rightarrow> 'a option \<Rightarrow> 'a option list list js_result" where
  "js_write2 a x y v =
     (case js_row a x of None \<Rightarrow> Inl TypeError | Some row \<Rightarrow> Inr (a[nat x := js_set row y v]))"

text \<open>JavaScript numbers in the score computation: \<open>None\<close> is a non-finite value
  (\<open>NaN\<close> or an infinity), which every further arithmetic operation keeps non-finite;
  division by zero is non-finite, unlike HOL's \<open>x / 0 = 0\<close>.\<close>

definition js_div :: "real \<Rightarrow> real \<Rightarrow> real option" where
  "js_div a b = (if b = 0 then None else Some (a / b))"

definition js_add :: "real option \<Rightarrow> real option \<Rightarrow> real option" where
  "js_add a b = (case (a, b) of (Some x, Some y) \<Rightarrow> Some (x + y) | _ \<Rightarrow> None)"

text \<open>\<open>Array.prototype.sort(cmp)\<close>: a stable sort by the comparator (ECMAScript 2019
  and later), written as insertion of each element after every element it does not
  precede.\<close>

fun insert_by :: "('a \<Rightarrow> 'a \<Rightarrow> int) \<Rightarrow> 'a \<Rightarrow> 'a list \<Rightarrow> 'a list" where
  "insert_by cmp x [] = [x]"
| "insert_by cmp x (y # ys) = (if cmp x y < 0 then x # y # ys else y # insert_by cmp x ys)"

definition js_sort :: "('a \<Rightarrow> 'a \<Rightarrow> int) \<Rightarrow> 'a list \<Rightarrow> 'a list" where
  "js_sort cmp xs = fold (insert_by cmp) xs []"

definition for_upto :: "nat \<Rightarrow> ('s \<Rightarrow> nat \<Rightarrow> 's) \<Rightarrow> 's \<Rightarrow> 's" where
  "for_upto n body s = fold (\<lambda>i s. body s i) [0..<n] s"

fun for_each_e :: "'i list \<Rightarrow> ('s \<Rightarrow> 'i \<Rightarrow> 's js_result) \<Rightarrow> 's \<Rightarrow> 's js_result" where
  "for_each_e [] body s = Inr s"
| "for_each_e (i # is) body s = js_bind (body s i) (for_each_e is body)"

definition for_upto_e :: "nat \<Rightarrow> ('s \<Rightarrow> nat \<Rightarrow> 's js_result) \<Rightarrow> 's \<Rightarrow> 's js_result" where
  "for_upto_e n body s = for_each_e [0..<n] body s"

definition coords :: "nat \<Rightarrow> (nat \<times> nat) list" where
  "coords n = [(x, y). x \<leftarrow> [0..<n], y \<leftarrow> [0..<n]]"

subsection \<open>Sums and the exception monad\<close>

lemma js_bind_simps [simp, js_simps]:
  "js_bind (Inl e) f = Inl e"
  "js_bind (Inr a) f = f a"
  by (simp_all add: js_bind_def)

lemma js_bind_eq_Inr [simp]:
  "js_bind m f = Inr b \<longleftrightarrow> (\<exists>a. m = Inr a \<and> f a = Inr b)"
  by (cases m) auto

lemma js_bind_assoc:
  "js_bind (js_bind m f) g = js_bind m (\<lambda>a. js_bind (f a) g)"
  by (cases m) auto

subsection \<open>Arrays\<close>

lemma js_get_in [simp, js_simps]: "i < length xs \<Longrightarrow> js_get xs (int i) = xs ! i"
  by (simp add: js_get_def)

lemma js_get_out: "length xs \<le> i \<Longrightarrow> js_get xs (int i) = None"
  by (simp add: js_get_def)

lemma js_get_neg [simp]: "i < 0 \<Longrightarrow> js_get xs i = None"
  by (simp add: js_get_def)

lemma js_row_in [simp, js_simps]: "i < length xs \<Longrightarrow> js_row xs (int i) = Some (xs ! i)"
  by (simp add: js_row_def)

lemma js_row_None_iff: "js_row xs i = None \<longleftrightarrow> i < 0 \<or> int (length xs) \<le> i"
  by (auto simp add: js_row_def)

lemma js_row_Some_iff:
  "js_row xs i = Some r \<longleftrightarrow> 0 \<le> i \<and> nat i < length xs \<and> r = xs ! nat i"
  by (auto simp add: js_row_def)

lemma js_get_js_set_same [simp]: "0 \<le> i \<Longrightarrow> js_get (js_set xs i v) i = v"
  by (auto simp add: js_get_def js_set_def nth_append)

lemma js_get_js_set_other [simp]:
  "j \<noteq> i \<Longrightarrow> js_get (js_set xs i v) j = js_get xs j"
  by (auto simp add: js_get_def js_set_def nth_append nth_list_update)

lemma length_js_set: "0 \<le> i \<Longrightarrow> length (js_set xs i v) = max (length xs) (nat i + 1)"
  by (auto simp add: js_set_def)

lemma js_set_neg [simp]: "i < 0 \<Longrightarrow> js_set xs i v = xs"
  by (simp add: js_set_def)

lemma set_js_set: "set (js_set xs i v) \<subseteq> set xs \<union> {None, v}"
  by (auto simp add: js_set_def dest: set_update_subset_insert [THEN subsetD])

lemma js_read2_in [simp, js_simps]:
  "x < length a \<Longrightarrow> js_read2 a (int x) y = Inr (js_get (a ! x) y)"
  by (simp add: js_read2_def)

lemma js_read2_Inr: "js_read2 a x y = Inr c \<longleftrightarrow> 0 \<le> x \<and> nat x < length a \<and> c = js_get (a ! nat x) y"
  by (auto simp add: js_read2_def js_row_def)

lemma js_write2_Inr:
  "js_write2 a x y v = Inr a' \<longleftrightarrow> 0 \<le> x \<and> nat x < length a \<and> a' = a[nat x := js_set (a ! nat x) y v]"
  by (auto simp add: js_write2_def js_row_def)

lemma js_write2_Inl: "js_write2 a x y v = Inl e \<longleftrightarrow> x < 0 \<or> int (length a) \<le> x"
  by (cases e) (auto simp add: js_write2_def js_row_def)

subsection \<open>Loops\<close>

lemma for_upto_Suc [simp]: "for_upto (Suc n) body s = body (for_upto n body s) n"
  by (simp add: for_upto_def)

lemma for_upto_0 [simp]: "for_upto 0 body s = s"
  by (simp add: for_upto_def)

lemma for_each_e_append:
  "for_each_e (xs @ ys) body s = js_bind (for_each_e xs body s) (for_each_e ys body)"
  by (induction xs arbitrary: s) (auto simp: js_bind_def split: sum.splits)

lemma for_each_e_snoc:
  "for_each_e (xs @ [i]) body s = js_bind (for_each_e xs body s) (\<lambda>s. body s i)"
  by (simp add: for_each_e_append js_bind_def split: sum.splits)

lemma for_each_e_Inr:
  assumes "\<And>s i. i \<in> set is \<Longrightarrow> body s i = Inr (f s i)"
  shows "for_each_e is body s = Inr (fold (\<lambda>i s. f s i) is s)"
  using assms by (induction "is" arbitrary: s) auto

lemma for_upto_e_0 [simp]: "for_upto_e 0 body s = Inr s"
  by (simp add: for_upto_e_def)

lemma for_upto_e_Suc:
  "for_upto_e (Suc n) body s = js_bind (for_upto_e n body s) (\<lambda>s. body s n)"
  by (simp add: for_upto_e_def for_each_e_snoc)

lemma for_each_e_concat:
  "for_each_e (concat (map g xs)) body s = for_each_e xs (\<lambda>s x. for_each_e (g x) body s) s"
  by (induction xs arbitrary: s) (simp_all add: for_each_e_append js_bind_def split: sum.splits)

text \<open>Two nested loops over \<open>[0..<n]\<close> are one loop over the coordinates in row-major order.\<close>

lemma for_upto_e_nested:
  "for_upto_e n (\<lambda>s x. for_upto_e n (\<lambda>s y. body s (x, y)) s) s = for_each_e (coords n) body s"
proof -
  have "coords n = concat (map (\<lambda>x. map (Pair x) [0..<n]) [0..<n])"
    by (simp add: coords_def)
  moreover have "\<And>x s. for_each_e (map (Pair x) [0..<n]) body s = for_each_e [0..<n] (\<lambda>s y. body s (x, y)) s"
    by (induction n) (simp_all add: for_each_e_snoc)
  ultimately show ?thesis
    by (simp add: for_upto_e_def for_each_e_concat)
qed

lemma set_coords [simp]: "set (coords n) = {..<n} \<times> {..<n}"
  by (auto simp add: coords_def)

lemma coords_product: "coords n = List.product [0..<n] [0..<n]"
  by (simp add: coords_def product_concat_map)

lemma distinct_coords: "distinct (coords n)"
  by (simp add: coords_product distinct_product)

lemma length_coords [simp]: "length (coords n) = n * n"
  by (simp add: coords_product)

lemma for_upto_snoc_replicate: "for_upto n (\<lambda>row y. row @ [a]) [] = replicate n a"
  by (induction n) (simp_all add: replicate_append_same)

lemma concat_map_pair_singleton:
  "concat (map (\<lambda>(x, y). [f x y]) xs) = map (\<lambda>(x, y). f x y) xs"
  by (induction xs) auto

subsection \<open>Sorting by a comparator\<close>

lemma mset_insert_by: "mset (insert_by cmp x xs) = add_mset x (mset xs)"
  by (induction xs) auto

lemma mset_js_sort_acc: "mset (fold (insert_by cmp) xs acc) = mset xs + mset acc"
  by (induction xs arbitrary: acc) (auto simp add: mset_insert_by)

lemma mset_js_sort [simp]: "mset (js_sort cmp xs) = mset xs"
  by (simp add: js_sort_def mset_js_sort_acc)

lemma set_insert_by: "set (insert_by cmp x xs) = insert x (set xs)"
  by (metis mset_insert_by set_mset_add_mset_insert set_mset_mset)

lemma sorted_desc_insert_by:
  "sorted_wrt (\<ge>) xs \<Longrightarrow> sorted_wrt (\<ge>) (insert_by (\<lambda>a b. b - a) (x::int) xs)"
  by (induction xs) (auto simp add: set_insert_by)

lemma sorted_desc_js_sort_acc:
  "sorted_wrt (\<ge>) acc \<Longrightarrow> sorted_wrt (\<ge>) (fold (insert_by (\<lambda>a b. b - a)) (xs::int list) acc)"
  by (induction xs arbitrary: acc) (auto simp add: sorted_desc_insert_by)

lemma js_sort_desc_rev_sort: "js_sort (\<lambda>a b. b - a) (xs::int list) = rev (sort xs)"
proof -
  have s: "sorted_wrt (\<ge>) (js_sort (\<lambda>a b. b - a) xs)"
    by (simp add: js_sort_def sorted_desc_js_sort_acc)
  have "sorted (rev (js_sort (\<lambda>a b. b - a) xs))"
    using s by (simp add: sorted_wrt_rev)
  moreover have "mset (rev (js_sort (\<lambda>a b. b - a) xs)) = mset xs" by simp
  ultimately have "rev (js_sort (\<lambda>a b. b - a) xs) = sort xs"
    by (metis properties_for_sort)
  then show ?thesis by (metis rev_rev_ident)
qed

lemma js_add_Some [simp]: "js_add (Some x) (Some y) = Some (x + y)"
  by (simp add: js_add_def)

lemma js_add_None [simp]: "js_add None b = None" "js_add a None = None"
  by (simp_all add: js_add_def split: option.splits)

lemma js_div_nonzero [simp]: "b \<noteq> 0 \<Longrightarrow> js_div a b = Some (a / b)"
  by (simp add: js_div_def)


subsection \<open>Loop invariants\<close>

lemma for_upto_e_inv:
  assumes "\<And>i s. i < n \<Longrightarrow> I i s \<Longrightarrow> \<exists>s'. body s i = Inr s' \<and> I (Suc i) s'" "I 0 s0"
  shows "\<exists>s'. for_upto_e n body s0 = Inr s' \<and> I n s'"
  using assms(1)
proof (induction n)
  case 0 then show ?case using assms(2) by simp
next
  case (Suc n)
  then obtain s where "for_upto_e n body s0 = Inr s" "I n s" by fastforce
  then show ?case using Suc.prems [of n s] by (auto simp add: for_upto_e_Suc)
qed

lemma for_upto_e_map:
  assumes "\<And>acc i. i < n \<Longrightarrow> body acc i = Inr (acc @ [f i])"
  shows "for_upto_e n body acc = Inr (acc @ map f [0..<n])"
  using assms by (induction n) (simp_all add: for_upto_e_Suc)

lemma for_each_e_inv:
  assumes "\<And>ys y zs s. xs = ys @ y # zs \<Longrightarrow> I ys s \<Longrightarrow> \<exists>s'. body s y = Inr s' \<and> I (ys @ [y]) s'"
    and "I [] s0"
  shows "\<exists>s'. for_each_e xs body s0 = Inr s' \<and> I xs s'"
  using assms(1)
proof (induction xs rule: rev_induct)
  case Nil then show ?case using assms(2) by simp
next
  case (snoc x xs)
  have "\<exists>s'. for_each_e xs body s0 = Inr s' \<and> I xs s'"
    by (rule snoc.IH) (rule snoc.prems, simp)
  then obtain s where "for_each_e xs body s0 = Inr s" "I xs s" by blast
  then show ?case using snoc.prems [of xs x "[]" s] by (auto simp add: for_each_e_snoc)
qed

lemma bind_dom: "(\<And>r. c = Some r \<Longrightarrow> r \<in> dom m) \<Longrightarrow> Option.bind c m = map_option (\<lambda>r. the (m r)) c"
  by (cases c) auto

lemma for_each_e_Inl:
  "i \<in> set xs \<Longrightarrow> (\<And>s. \<exists>e. body s i = Inl e) \<Longrightarrow> \<exists>e. for_each_e xs body s = Inl e"
proof (induction xs arbitrary: s)
  case Nil then show ?case by simp
next
  case (Cons j xs)
  show ?case
  proof (cases "body s j")
    case (Inl e) then show ?thesis by simp
  next
    case (Inr s')
    then have "j \<noteq> i" using Cons.prems(2) by (metis sum.disc(2) sum.disc(1) isl_def) 
    then show ?thesis using Cons Inr by simp
  qed
qed

end
