(* ===== verification/Tile.thy ===== *)
theory Tile
  imports Prelude
begin

text \<open>
  The Tile objects the grid stores.  The \<open>Tile\<close> class is not among the sources under
  \<open>src/\<close>; it is modelled from the contract of spec.md (sections 3 and 6): a tile has
  fields \<open>x\<close>, \<open>y\<close> and \<open>logValue\<close>, is built by \<open>new Tile(position, logValue)\<close>,
  and offers \<open>clone()\<close> (a new object with the same fields) and \<open>serialize()\<close>
  (the plain record \<open>{position: {x, y}, logValue}\<close>).

  Tiles are JavaScript objects, so two cells, or two grids, may hold the same object.
  To state what the code promises about sharing, tiles live in an explicit store:
  a cell holds a reference (an address), and \<open>objs\<close> maps each allocated address to the
  fields of the object there.  \<open>new Tile\<close> allocates at the next free address, as an
  allocator with a limit counter does.  A reference that the store does not hold
  stands for a value that is not an object; reading a field of it is the
  \<open>TypeError\<close> of reading a property of \<open>undefined\<close>.
\<close>

record position =
  px :: int
  py :: int

record tile =
  tx :: int
  ty :: int
  logValue :: int

record tile_state =
  tile_position :: position
  state_logValue :: int

type_synonym ref = nat

record store =
  objs :: "ref \<rightharpoonup> tile"
  next_ref :: ref

definition alloc :: "tile \<Rightarrow> store \<Rightarrow> ref \<times> store" where
  "alloc t h = (next_ref h, h\<lparr>objs := (objs h)(next_ref h \<mapsto> t), next_ref := Suc (next_ref h)\<rparr>)"

definition new_Tile :: "position \<Rightarrow> int \<Rightarrow> store \<Rightarrow> ref \<times> store" where
  "new_Tile p v h = alloc \<lparr>tx = px p, ty = py p, logValue = v\<rparr> h"

definition get_tile :: "store \<Rightarrow> ref \<Rightarrow> tile js_result" where
  "get_tile h r = (case objs h r of None \<Rightarrow> Inl TypeError | Some t \<Rightarrow> Inr t)"

definition tile_clone :: "store \<Rightarrow> ref \<Rightarrow> (ref \<times> store) js_result" where
  "tile_clone h r = js_bind (get_tile h r)
     (\<lambda>t. Inr (new_Tile \<lparr>px = tx t, py = ty t\<rparr> (logValue t) h))"

definition tile_serialize :: "tile \<Rightarrow> tile_state" where
  "tile_serialize t = \<lparr>tile_position = \<lparr>px = tx t, py = ty t\<rparr>, state_logValue = logValue t\<rparr>"

text \<open>The tile that \<open>new Tile(state.position, state.logValue)\<close> builds from a serialized tile.\<close>

definition state_tile :: "tile_state \<Rightarrow> tile" where
  "state_tile ts = \<lparr>tx = px (tile_position ts), ty = py (tile_position ts), logValue = state_logValue ts\<rparr>"

text \<open>Every allocated address lies below the allocation counter.\<close>

definition store_ok :: "store \<Rightarrow> bool" where
  "store_ok h \<longleftrightarrow> (\<forall>r. next_ref h \<le> r \<longrightarrow> objs h r = None)"

text \<open>A store extends another when it keeps every object unchanged and allocates past it.\<close>

definition store_ext :: "store \<Rightarrow> store \<Rightarrow> bool" where
  "store_ext h h' \<longleftrightarrow> next_ref h \<le> next_ref h' \<and> (\<forall>r < next_ref h. objs h' r = objs h r)"

subsection \<open>Allocation\<close>

lemma alloc_fresh:
  assumes "store_ok h" "alloc t h = (r, h')"
  shows "r \<notin> dom (objs h)" and "objs h' r = Some t" and "store_ok h'" and "store_ext h h'"
    and "next_ref h \<le> r" and "r < next_ref h'"
  using assms by (auto simp add: alloc_def store_ok_def store_ext_def)

lemma new_Tile_fields:
  "new_Tile p v h = (r, h') \<Longrightarrow> objs h' r = Some \<lparr>tx = px p, ty = py p, logValue = v\<rparr>"
  by (auto simp add: new_Tile_def alloc_def)

lemma new_Tile_fresh:
  assumes "store_ok h" "new_Tile p v h = (r, h')"
  shows "store_ok h'" and "store_ext h h'" and "next_ref h \<le> r" and "r < next_ref h'"
  using alloc_fresh [OF assms(1)] assms(2) by (auto simp add: new_Tile_def)

lemma store_ext_refl [simp, intro]: "store_ext h h"
  by (simp add: store_ext_def)

lemma store_ext_trans [trans]: "store_ext h1 h2 \<Longrightarrow> store_ext h2 h3 \<Longrightarrow> store_ext h1 h3"
  by (auto simp add: store_ext_def)

lemma store_okD: "store_ok h \<Longrightarrow> objs h r = Some t \<Longrightarrow> r < next_ref h"
  by (metis leI option.distinct(1) store_ok_def)

lemma store_ext_objs:
  "store_ok h \<Longrightarrow> store_ext h h' \<Longrightarrow> r \<in> dom (objs h) \<Longrightarrow> objs h' r = objs h r"
  by (auto simp add: store_ext_def dest: store_okD)

lemma get_tile_Inr [simp]: "get_tile h r = Inr t \<longleftrightarrow> objs h r = Some t"
  by (simp add: get_tile_def split: option.splits)

lemma get_tile_dom: "r \<in> dom (objs h) \<Longrightarrow> get_tile h r = Inr (the (objs h r))"
  by (auto simp add: get_tile_def)

lemma tile_clone_Inr:
  assumes "store_ok h" "tile_clone h r = Inr (r', h')"
  shows "objs h' r' = objs h r" and "store_ok h'" and "store_ext h h'"
    and "next_ref h \<le> r'" and "r' < next_ref h'"
  using assms new_Tile_fresh [OF assms(1)] new_Tile_fields
  by (auto simp add: tile_clone_def)

lemma tile_clone_dom: "r \<in> dom (objs h) \<Longrightarrow> \<exists>r' h'. tile_clone h r = Inr (r', h')"
  by (auto simp add: tile_clone_def get_tile_def new_Tile_def alloc_def)


subsection \<open>Clone and serialize\<close>

lemma tile_eta [simp]: "\<lparr>tx = tx t, ty = ty t, logValue = logValue t\<rparr> = t"
  by simp

lemma tile_clone_eq:
  "objs h r = Some t \<Longrightarrow>
     tile_clone h r = Inr (next_ref h, h\<lparr>objs := (objs h)(next_ref h \<mapsto> t), next_ref := Suc (next_ref h)\<rparr>)"
  by (simp add: tile_clone_def new_Tile_def alloc_def)

lemma state_tile_serialize [simp]: "state_tile (tile_serialize t) = t"
  by (simp add: state_tile_def tile_serialize_def)

lemma tile_serialize_state [simp]: "tile_serialize (state_tile ts) = ts"
  by (simp add: tile_serialize_def state_tile_def)

end
