(* ===== verification/Grid_Base.thy ===== *)
theory Grid_Base
  imports Tile
begin

text \<open>
  The state of a \<open>Grid\<close> object of \<open>src/js/grid_zen.js\<close> and its construction
  (lines 1--35): the constructor \<open>Grid(size, previousState)\<close>, \<open>empty()\<close>, which
  builds a \<open>size\<close> by \<open>size\<close> array of \<open>null\<close>, and \<open>fromState(state)\<close>, which
  builds a fresh tile for every non-null entry of a snapshot.  The theory also holds the
  view of a grid every component shares: \<open>cell g x y\<close> reads \<open>cells[x][y]\<close>,
  \<open>board h g\<close> is the abstract board (coordinates inside \<open>size\<close> to the tile there),
  and the invariants \<open>wf_grid\<close> (one row per coordinate), \<open>refs_ok\<close> (every stored
  reference is an object of the store) and \<open>pos_inv\<close> (a tile stored at
  \<open>cells[x][y]\<close> has \<open>x\<close> and \<open>y\<close> as its position).
\<close>

record grid =
  grid_size :: nat
  cells :: "ref option list list"
  highestTileLogValue :: "int option"
  playerTurn :: "bool option"

definition grid_empty :: "nat \<Rightarrow> ref option list list" where
  "grid_empty n =
     for_upto n (\<lambda>cells x. cells @ [for_upto n (\<lambda>row y. row @ [None]) []]) []"

definition fromState ::
  "nat \<Rightarrow> tile_state option list list \<Rightarrow> store \<Rightarrow> (ref option list list \<times> store) js_result" where
  "fromState n state h0 =
     for_upto_e n (\<lambda>(cells, h) x.
       js_bind
         (for_upto_e n (\<lambda>(row, h) y.
            case js_row state (int x) of
              None \<Rightarrow> Inl TypeError
            | Some srow \<Rightarrow>
                (case js_get srow (int y) of
                   None \<Rightarrow> Inr (row @ [None], h)
                 | Some tile \<Rightarrow>
                     (let (r, h') = new_Tile (tile_position tile) (state_logValue tile) h
                      in Inr (row @ [Some r], h'))))
           ([], h))
         (\<lambda>(row, h). Inr (cells @ [row], h)))
       ([], h0)"

definition Grid ::
  "nat \<Rightarrow> tile_state option list list option \<Rightarrow> store \<Rightarrow> (grid \<times> store) js_result" where
  "Grid n previousState h =
     js_bind
       (case previousState of
          Some state \<Rightarrow> fromState n state h
        | None \<Rightarrow> Inr (grid_empty n, h))
       (\<lambda>(cs, h'). Inr (\<lparr>grid_size = n, cells = cs, highestTileLogValue = Some 0,
                        playerTurn = None\<rparr>, h'))"

subsection \<open>The view of a grid and its invariants\<close>

definition cell :: "grid \<Rightarrow> nat \<Rightarrow> nat \<Rightarrow> ref option" where
  "cell g x y = Option.bind (js_row (cells g) (int x)) (\<lambda>row. js_get row (int y))"

definition board :: "store \<Rightarrow> grid \<Rightarrow> nat \<times> nat \<rightharpoonup> tile" where
  "board h g = (\<lambda>(x, y). if x < grid_size g \<and> y < grid_size g
                         then Option.bind (cell g x y) (objs h) else None)"

definition grid_refs :: "grid \<Rightarrow> ref set" where
  "grid_refs g = {r. \<exists>row \<in> set (cells g). Some r \<in> set row}"

definition wf_grid :: "grid \<Rightarrow> bool" where
  "wf_grid g \<longleftrightarrow> length (cells g) = grid_size g"

definition refs_ok :: "store \<Rightarrow> grid \<Rightarrow> bool" where
  "refs_ok h g \<longleftrightarrow> grid_refs g \<subseteq> dom (objs h)"

definition pos_inv :: "store \<Rightarrow> grid \<Rightarrow> bool" where
  "pos_inv h g \<longleftrightarrow>
     (\<forall>x < length (cells g). \<forall>y r t. js_get (cells g ! x) y = Some r \<longrightarrow> objs h r = Some t \<longrightarrow>
        tx t = int x \<and> ty t = y)"

text \<open>The grid invariant: what every grid built by the constructor satisfies and every
  mutation of the grid keeps.\<close>

definition grid_inv :: "store \<Rightarrow> grid \<Rightarrow> bool" where
  "grid_inv h g \<longleftrightarrow> wf_grid g \<and> refs_ok h g \<and> pos_inv h g"

subsection \<open>Reading cells\<close>

lemma cell_in [simp]: "x < length (cells g) \<Longrightarrow> cell g x y = js_get (cells g ! x) (int y)"
  by (simp add: cell_def)

lemma cell_out: "length (cells g) \<le> x \<Longrightarrow> cell g x y = None"
  by (simp add: cell_def js_row_def)

lemma cell_grid_refs: "cell g x y = Some r \<Longrightarrow> r \<in> grid_refs g"
  by (auto simp add: cell_def grid_refs_def js_get_def js_row_def split: if_splits
      intro!: bexI [of _ "cells g ! nat (int x)"] dest: nth_mem)

lemma grid_refs_cell: "r \<in> grid_refs g \<Longrightarrow> \<exists>x y. cell g x y = Some r"
proof -
  assume "r \<in> grid_refs g"
  then obtain x y where "x < length (cells g)" "y < length (cells g ! x)" "cells g ! x ! y = Some r"
    by (auto simp add: grid_refs_def in_set_conv_nth)
  then show ?thesis by (metis cell_in js_get_in)
qed

lemma board_Some:
  "board h g (x, y) = Some t \<longleftrightarrow>
     x < grid_size g \<and> y < grid_size g \<and> (\<exists>r. cell g x y = Some r \<and> objs h r = Some t)"
  by (auto simp add: board_def bind_eq_Some_conv)

lemma read2_cell [simp]:
  "wf_grid g \<Longrightarrow> x < grid_size g \<Longrightarrow> js_read2 (cells g) (int x) (int y) = Inr (cell g x y)"
  by (simp add: wf_grid_def)

lemma refs_ok_cell: "refs_ok h g \<Longrightarrow> cell g x y = Some r \<Longrightarrow> r \<in> dom (objs h)"
  by (auto simp add: refs_ok_def dest: cell_grid_refs)

subsection \<open>Construction of an empty grid\<close>

lemma grid_empty_replicate: "grid_empty n = replicate n (replicate n None)"
proof -
  have "\<And>m. for_upto m (\<lambda>cells x. cells @ [replicate n None]) [] = replicate m (replicate n None)"
    by (rule for_upto_snoc_replicate)
  then show ?thesis by (simp add: grid_empty_def for_upto_snoc_replicate)
qed

lemma Grid_None:
  "Grid n None h = Inr (\<lparr>grid_size = n, cells = replicate n (replicate n None),
                         highestTileLogValue = Some 0, playerTurn = None\<rparr>, h)"
  by (simp add: Grid_def grid_empty_replicate)

lemma grid_inv_empty:
  "grid_inv h \<lparr>grid_size = n, cells = replicate n (replicate n None),
               highestTileLogValue = v, playerTurn = p\<rparr>"
  by (auto simp add: grid_inv_def wf_grid_def refs_ok_def grid_refs_def pos_inv_def js_get_def)


subsection \<open>The invariants read through cells\<close>

lemma pos_inv_cell:
  "pos_inv h g \<longleftrightarrow> (\<forall>x y r t. cell g x y = Some r \<longrightarrow> objs h r = Some t \<longrightarrow> tx t = int x \<and> ty t = int y)"
proof
  assume p: "pos_inv h g"
  show "\<forall>x y r t. cell g x y = Some r \<longrightarrow> objs h r = Some t \<longrightarrow> tx t = int x \<and> ty t = int y"
  proof (intro allI impI)
    fix x y r t assume c: "cell g x y = Some r" and o: "objs h r = Some t"
    have x: "x < length (cells g)" using c cell_out [of g x y] by (cases "x < length (cells g)") auto
    then show "tx t = int x \<and> ty t = int y" using p c o by (simp add: pos_inv_def)
  qed
next
  assume c: "\<forall>x y r t. cell g x y = Some r \<longrightarrow> objs h r = Some t \<longrightarrow> tx t = int x \<and> ty t = int y"
  show "pos_inv h g" unfolding pos_inv_def
  proof (intro allI impI)
    fix x y r t assume x: "x < length (cells g)" and j: "js_get (cells g ! x) y = Some r" and o: "objs h r = Some t"
    have y: "0 \<le> y" using j by (cases "y < 0") auto
    then have "cell g x (nat y) = Some r" using x j by simp
    then show "tx t = int x \<and> ty t = y" using c o y by fastforce
  qed
qed

lemma refs_ok_cell_iff: "refs_ok h g \<longleftrightarrow> (\<forall>x y r. cell g x y = Some r \<longrightarrow> r \<in> dom (objs h))"
  by (meson refs_ok_cell grid_refs_cell refs_ok_def subsetI)

lemma pos_inv_transfer:
  assumes "pos_inv h g" "\<And>x y r. cell g2 x y = Some r \<Longrightarrow> \<exists>r0. cell g x y = Some r0 \<and> objs h2 r = objs h r0"
  shows "pos_inv h2 g2"
  unfolding pos_inv_cell
proof (intro allI impI)
  fix x y r t assume c: "cell g2 x y = Some r" and o: "objs h2 r = Some t"
  obtain r0 where "cell g x y = Some r0" "objs h2 r = objs h r0" using assms(2) [OF c] by blast
  then show "tx t = int x \<and> ty t = int y" using assms(1) o unfolding pos_inv_cell by metis
qed

lemma board_store_ext:
  "refs_ok h g \<Longrightarrow> store_ok h \<Longrightarrow> store_ext h h' \<Longrightarrow> board h' g = board h g"
proof (rule ext, clarify)
  fix x y assume a: "refs_ok h g" "store_ok h" "store_ext h h'"
  show "board h' g (x, y) = board h g (x, y)"
  proof (cases "cell g x y")
    case (Some r)
    then have "objs h' r = objs h r" using store_ext_objs [OF a(2,3)] refs_ok_cell [OF a(1)] by blast
    then show ?thesis using Some by (simp add: board_def)
  qed (simp add: board_def)
qed

end
