(* ===== verification/Grid_Cells.thy ===== *)
theory Grid_Cells
  imports Grid_Base
begin

text \<open>
  Cell queries and mutation of \<open>src/js/grid_zen.js\<close> (lines 37--101):
  \<open>eachCell\<close> (the callback is a state-passing function, the accumulator the closure
  mutates), \<open>availableCells\<close>, \<open>cellsAvailable\<close>, \<open>randomAvailableCell\<close> (the value of
  \<open>Math.random()\<close> is an argument), \<open>cellContent\<close>, \<open>cellOccupied\<close>,
  \<open>cellAvailable\<close>, \<open>insertTile\<close>, \<open>removeTile\<close> and \<open>withinBounds\<close>.
  The lemmas give each operation's result on a well-formed grid, its exceptions, the
  invariants it keeps, and its effect on the abstract board \<open>board\<close>.
\<close>

definition eachCell :: "('s \<Rightarrow> nat \<Rightarrow> nat \<Rightarrow> ref option \<Rightarrow> 's) \<Rightarrow> grid \<Rightarrow> 's \<Rightarrow> 's js_result" where
  "eachCell callback g s =
     for_upto_e (grid_size g) (\<lambda>s x.
       for_upto_e (grid_size g) (\<lambda>s y.
         js_bind (js_read2 (cells g) (int x) (int y)) (\<lambda>c. Inr (callback s x y c))) s) s"

definition availableCells :: "grid \<Rightarrow> position list js_result" where
  "availableCells g =
     eachCell (\<lambda>cells x y tile.
       if tile = None then cells @ [\<lparr>px = int x, py = int y\<rparr>] else cells) g []"

definition cellsAvailable :: "grid \<Rightarrow> bool js_result" where
  "cellsAvailable g = js_bind (availableCells g) (\<lambda>cells. Inr (length cells \<noteq> 0))"

definition randomAvailableCell :: "grid \<Rightarrow> real \<Rightarrow> position option js_result" where
  "randomAvailableCell g random =
     js_bind (availableCells g) (\<lambda>cells.
       Inr (if length cells \<noteq> 0
            then js_get (map Some cells) \<lfloor>random * real (length cells)\<rfloor>
            else None))"

definition withinBounds :: "position \<Rightarrow> bool" where
  "withinBounds position \<longleftrightarrow>
     px position \<ge> 0 \<and> px position < 4 \<and> py position \<ge> 0 \<and> py position < 4"

definition cellContent :: "grid \<Rightarrow> position \<Rightarrow> ref option js_result" where
  "cellContent g c =
     (if withinBounds c then js_read2 (cells g) (px c) (py c) else Inr None)"

definition cellOccupied :: "grid \<Rightarrow> position \<Rightarrow> bool js_result" where
  "cellOccupied g c = js_bind (cellContent g c) (\<lambda>t. Inr (t \<noteq> None))"

definition cellAvailable :: "grid \<Rightarrow> position \<Rightarrow> bool js_result" where
  "cellAvailable g c = js_bind (cellOccupied g c) (\<lambda>b. Inr (\<not> b))"

definition insertTile :: "store \<Rightarrow> ref \<Rightarrow> grid \<Rightarrow> grid js_result" where
  "insertTile h tile g =
     js_bind (get_tile h tile) (\<lambda>t.
       js_bind (js_write2 (cells g) (tx t) (ty t) (Some tile)) (\<lambda>cs. Inr (g\<lparr>cells := cs\<rparr>)))"

definition removeTile :: "store \<Rightarrow> ref \<Rightarrow> grid \<Rightarrow> grid js_result" where
  "removeTile h tile g =
     js_bind (get_tile h tile) (\<lambda>t.
       js_bind (js_write2 (cells g) (tx t) (ty t) None) (\<lambda>cs. Inr (g\<lparr>cells := cs\<rparr>)))"

text \<open>The external game driver changes a grid only through \<open>insertTile\<close> and
  \<open>removeTile\<close>; a sequence of such calls stops at the first exception.\<close>

datatype cell_op = Insert ref | Remove ref

fun cell_step :: "store \<Rightarrow> grid \<Rightarrow> cell_op \<Rightarrow> grid js_result" where
  "cell_step h g (Insert r) = insertTile h r g"
| "cell_step h g (Remove r) = removeTile h r g"

definition cell_run :: "store \<Rightarrow> grid \<Rightarrow> cell_op list \<Rightarrow> grid js_result" where
  "cell_run h g ops = for_each_e ops (cell_step h) g"

text \<open>The abstract specification of the two mutations on the board of a grid of size
  \<open>n\<close>: a tile is put at, or deleted from, its own position when that position is on the
  board.\<close>

fun board_step :: "nat \<Rightarrow> store \<Rightarrow> (nat \<times> nat \<rightharpoonup> tile) \<Rightarrow> cell_op \<Rightarrow> (nat \<times> nat \<rightharpoonup> tile)" where
  "board_step n h b (Insert r) =
     (case objs h r of
        None \<Rightarrow> b
      | Some t \<Rightarrow> if 0 \<le> ty t \<and> ty t < int n then b((nat (tx t), nat (ty t)) \<mapsto> t) else b)"
| "board_step n h b (Remove r) =
     (case objs h r of
        None \<Rightarrow> b
      | Some t \<Rightarrow> if 0 \<le> ty t \<and> ty t < int n then b((nat (tx t), nat (ty t)) := None) else b)"

subsection \<open>Traversal\<close>

text \<open>On a well-formed grid \<open>eachCell\<close> never raises and calls back once per
  coordinate, in row-major order.\<close>

lemma eachCell_fold:
  assumes "wf_grid g"
  shows "eachCell f g s =
           Inr (fold (\<lambda>(x, y) s. f s x y (cell g x y)) (coords (grid_size g)) s)"
proof -
  have "eachCell f g s =
          for_each_e (coords (grid_size g))
            (\<lambda>s (x, y). js_bind (js_read2 (cells g) (int x) (int y)) (\<lambda>c. Inr (f s x y c))) s"
    unfolding eachCell_def using for_upto_e_nested [where body =
        "\<lambda>s (x, y). js_bind (js_read2 (cells g) (int x) (int y)) (\<lambda>c. Inr (f s x y c))"]
    by simp
  also have "\<dots> = Inr (fold (\<lambda>(x, y) s. f s x y (cell g x y)) (coords (grid_size g)) s)"
    using assms by (intro for_each_e_Inr) auto
  finally show ?thesis
    by (simp add: case_prod_beta')
qed

lemma fold_filter_append:
  "fold (\<lambda>(x, y) acc. if P x y then acc @ [f x y] else acc) xs acc =
     acc @ [f x y. (x, y) \<leftarrow> xs, P x y]"
  by (induction xs arbitrary: acc) auto

lemma availableCells_wf:
  "wf_grid g \<Longrightarrow> availableCells g =
     Inr [\<lparr>px = int x, py = int y\<rparr>. (x, y) \<leftarrow> coords (grid_size g), cell g x y = None]"
  by (simp add: availableCells_def eachCell_fold fold_filter_append [where acc = "[]", simplified])

lemma set_available:
  "set [\<lparr>px = int x, py = int y\<rparr>. (x, y) \<leftarrow> coords n, cell g x y = None] =
     {\<lparr>px = int x, py = int y\<rparr> | x y. x < n \<and> y < n \<and> cell g x y = None}"
  by (auto simp add: coords_def)

lemma comprehension_map_filter:
  "[f x y. (x, y) \<leftarrow> xs, P x y] = map (\<lambda>(x, y). f x y) (filter (\<lambda>(x, y). P x y) xs)"
  by (induction xs) auto

lemma distinct_available:
  "distinct [\<lparr>px = int x, py = int y\<rparr>. (x, y) \<leftarrow> coords n, cell g x y = None]"
proof -
  have "inj_on (\<lambda>(x, y). \<lparr>px = int x, py = int y\<rparr>) (set (coords n))"
    by (auto simp add: inj_on_def)
  then show ?thesis
    using distinct_coords [of n]
    by (auto simp add: comprehension_map_filter distinct_map intro: inj_on_subset)
qed

subsection \<open>Writing cells\<close>

lemma cell_write:
  assumes "0 \<le> X" "nat X < length (cells g)"
  shows "cell (g\<lparr>cells := (cells g)[nat X := js_set (cells g ! nat X) Y v]\<rparr>) x y =
           (if x = nat X \<and> int y = Y then v else cell g x y)"
  using assms by (auto simp add: cell_def js_row_def nth_list_update)

lemma insertTile_Inr:
  "insertTile h r g = Inr g' \<longleftrightarrow>
     (\<exists>t. objs h r = Some t \<and> 0 \<le> tx t \<and> nat (tx t) < length (cells g) \<and>
          g' = g\<lparr>cells := (cells g)[nat (tx t) := js_set (cells g ! nat (tx t)) (ty t) (Some r)]\<rparr>)"
  by (auto simp add: insertTile_def js_write2_Inr)

lemma removeTile_Inr:
  "removeTile h r g = Inr g' \<longleftrightarrow>
     (\<exists>t. objs h r = Some t \<and> 0 \<le> tx t \<and> nat (tx t) < length (cells g) \<and>
          g' = g\<lparr>cells := (cells g)[nat (tx t) := js_set (cells g ! nat (tx t)) (ty t) None]\<rparr>)"
  by (auto simp add: removeTile_def js_write2_Inr)

lemma insertTile_Inr_tile:
  "insertTile h r g = Inr g' \<Longrightarrow> objs h r = Some t \<Longrightarrow>
     0 \<le> tx t \<and> nat (tx t) < length (cells g) \<and>
     g' = g\<lparr>cells := (cells g)[nat (tx t) := js_set (cells g ! nat (tx t)) (ty t) (Some r)]\<rparr>"
  by (auto simp add: insertTile_Inr)

lemma removeTile_Inr_tile:
  "removeTile h r g = Inr g' \<Longrightarrow> objs h r = Some t \<Longrightarrow>
     0 \<le> tx t \<and> nat (tx t) < length (cells g) \<and>
     g' = g\<lparr>cells := (cells g)[nat (tx t) := js_set (cells g ! nat (tx t)) (ty t) None]\<rparr>"
  by (auto simp add: removeTile_Inr)

text \<open>C22: \<open>insertTile\<close> raises exactly when its argument is not a tile object or the tile's x coordinate names no row of the grid (negative or at least \<open>size\<close>); a y coordinate out of range does not raise.\<close>

theorem insertTile_Inl:
  "insertTile h r g = Inl e \<longleftrightarrow>
     (case objs h r of None \<Rightarrow> True | Some t \<Rightarrow> tx t < 0 \<or> int (length (cells g)) \<le> tx t)"
  by (cases e) (auto simp add: insertTile_def get_tile_def js_write2_def js_row_def js_bind_def split: option.splits)

lemma grid_refs_write:
  assumes "0 \<le> X" "nat X < length (cells g)"
  shows "grid_refs (g\<lparr>cells := (cells g)[nat X := js_set (cells g ! nat X) Y v]\<rparr>) \<subseteq>
           grid_refs g \<union> {r. v = Some r}"
proof
  fix r assume "r \<in> grid_refs (g\<lparr>cells := (cells g)[nat X := js_set (cells g ! nat X) Y v]\<rparr>)"
  then obtain x y where "cell (g\<lparr>cells := (cells g)[nat X := js_set (cells g ! nat X) Y v]\<rparr>) x y = Some r"
    using grid_refs_cell by blast
  then show "r \<in> grid_refs g \<union> {r. v = Some r}"
    using assms by (auto simp add: cell_write split: if_splits dest: cell_grid_refs)
qed

lemma write_wf:
  "wf_grid g \<Longrightarrow> wf_grid (g\<lparr>cells := (cells g)[i := row]\<rparr>)"
  by (simp add: wf_grid_def)

lemma write_pos_inv:
  assumes "pos_inv h g" "0 \<le> X" "nat X < length (cells g)"
    and "\<And>r t. v = Some r \<Longrightarrow> objs h r = Some t \<Longrightarrow> tx t = X \<and> ty t = Y"
  shows "pos_inv h (g\<lparr>cells := (cells g)[nat X := js_set (cells g ! nat X) Y v]\<rparr>)"
  unfolding pos_inv_def
proof (intro allI impI)
  fix x y r t
  assume x: "x < length (cells (g\<lparr>cells := (cells g)[nat X := js_set (cells g ! nat X) Y v]\<rparr>))"
    and c: "js_get (cells (g\<lparr>cells := (cells g)[nat X := js_set (cells g ! nat X) Y v]\<rparr>) ! x) y = Some r"
    and t: "objs h r = Some t"
  show "tx t = int x \<and> ty t = y"
  proof (cases "x = nat X \<and> y = Y")
    case True
    with c assms(2,3) have "v = Some r" by (cases "0 \<le> Y") simp_all
    with assms(2,4) t True show ?thesis by auto
  next
    case False
    with c x assms(3) have "js_get (cells g ! x) y = Some r"
      by (cases "x = nat X") (auto simp add: nth_list_update)
    with assms(1) x t show ?thesis by (auto simp add: pos_inv_def)
  qed
qed

lemma insertTile_invs:
  assumes "insertTile h r g = Inr g'" "wf_grid g" "refs_ok h g" "pos_inv h g"
  shows "wf_grid g'" and "refs_ok h g'" and "pos_inv h g'"
proof -
  from assms(1) obtain t where t: "objs h r = Some t" "0 \<le> tx t" "nat (tx t) < length (cells g)"
    and g': "g' = g\<lparr>cells := (cells g)[nat (tx t) := js_set (cells g ! nat (tx t)) (ty t) (Some r)]\<rparr>"
    unfolding insertTile_Inr by blast
  show "wf_grid g'" using assms(2) unfolding g' by (rule write_wf)
  have "grid_refs g' \<subseteq> grid_refs g \<union> {r}"
    using grid_refs_write [OF t(2,3), of "ty t" "Some r"] unfolding g' by simp
  then show "refs_ok h g'"
    using assms(3) t(1) by (auto simp add: refs_ok_def)
  have "\<And>r' t'. Some r = Some r' \<Longrightarrow> objs h r' = Some t' \<Longrightarrow> tx t' = tx t \<and> ty t' = ty t"
    using t(1) by simp
  from write_pos_inv [OF assms(4) t(2,3) this] show "pos_inv h g'"
    unfolding g' .
qed

lemma removeTile_invs:
  assumes "removeTile h r g = Inr g'" "wf_grid g" "refs_ok h g" "pos_inv h g"
  shows "wf_grid g'" and "refs_ok h g'" and "pos_inv h g'"
proof -
  from assms(1) obtain t where t: "objs h r = Some t" "0 \<le> tx t" "nat (tx t) < length (cells g)"
    and g': "g' = g\<lparr>cells := (cells g)[nat (tx t) := js_set (cells g ! nat (tx t)) (ty t) None]\<rparr>"
    unfolding removeTile_Inr by blast
  show "wf_grid g'" using assms(2) unfolding g' by (rule write_wf)
  have "grid_refs g' \<subseteq> grid_refs g"
    using grid_refs_write [OF t(2,3), of "ty t" None] unfolding g' by simp
  then show "refs_ok h g'"
    using assms(3) by (auto simp add: refs_ok_def)
  have "\<And>r' t'. (None :: ref option) = Some r' \<Longrightarrow> objs h r' = Some t' \<Longrightarrow> tx t' = tx t \<and> ty t' = ty t"
    by simp
  from write_pos_inv [OF assms(4) t(2,3) this] show "pos_inv h g'"
    unfolding g' .
qed

lemma board_write:
  assumes "wf_grid g" "0 \<le> X" "nat X < length (cells g)"
  shows "board h (g\<lparr>cells := (cells g)[nat X := js_set (cells g ! nat X) Y v]\<rparr>) =
           (if 0 \<le> Y \<and> Y < int (grid_size g)
            then (board h g)((nat X, nat Y) := Option.bind v (objs h)) else board h g)"
proof (rule ext, clarify)
  fix x y
  show "board h (g\<lparr>cells := (cells g)[nat X := js_set (cells g ! nat X) Y v]\<rparr>) (x, y) =
          (if 0 \<le> Y \<and> Y < int (grid_size g)
           then (board h g)((nat X, nat Y) := Option.bind v (objs h)) else board h g) (x, y)"
    using assms by (simp add: board_def cell_write) (auto simp add: wf_grid_def)
qed

lemma cell_step_board:
  assumes "wf_grid g" "cell_step h g op = Inr g'"
  shows "board h g' = board_step (grid_size g) h (board h g) op \<and> wf_grid g' \<and> grid_size g' = grid_size g"
proof (cases op)
  case (Insert r)
  then obtain t where t: "objs h r = Some t" using assms(2) by (auto simp add: insertTile_Inr)
  note w = insertTile_Inr_tile [OF assms(2) [unfolded Insert cell_step.simps] t]
  show ?thesis
    using board_write [OF assms(1) conjunct1 [OF w] conjunct1 [OF conjunct2 [OF w]], of h "ty t" "Some r"]
      w t Insert assms(1) by (simp add: wf_grid_def)
next
  case (Remove r)
  then obtain t where t: "objs h r = Some t" using assms(2) by (auto simp add: removeTile_Inr)
  note w = removeTile_Inr_tile [OF assms(2) [unfolded Remove cell_step.simps] t]
  show ?thesis
    using board_write [OF assms(1) conjunct1 [OF w] conjunct1 [OF conjunct2 [OF w]], of h "ty t" None]
      w t Remove assms(1) by (simp add: wf_grid_def)
qed

text \<open>C1: on a well-formed grid, a successful \<open>insertTile\<close> refines the abstract board update: the tile is put at its own position when that position is on the board, and the board is otherwise unchanged (a write beyond \<open>size\<close> is invisible to the board).\<close>

theorem insertTile_board:
  assumes "wf_grid g" "insertTile h r g = Inr g'" "objs h r = Some t"
  shows "board h g' = (if 0 \<le> ty t \<and> ty t < int (grid_size g)
                       then (board h g)((nat (tx t), nat (ty t)) \<mapsto> t) else board h g)"
  using cell_step_board [OF assms(1), of h "Insert r" g'] assms(2,3) by simp

text \<open>C2: on a well-formed grid, a successful \<open>removeTile\<close> refines the abstract board deletion at the tile's own position.\<close>

theorem removeTile_board:
  assumes "wf_grid g" "removeTile h r g = Inr g'" "objs h r = Some t"
  shows "board h g' = (if 0 \<le> ty t \<and> ty t < int (grid_size g)
                       then (board h g)((nat (tx t), nat (ty t)) := None) else board h g)"
  using cell_step_board [OF assms(1), of h "Remove r" g'] assms(2,3) by simp

lemma cellContent_write:
  assumes "0 \<le> X" "nat X < length (cells g)" "withinBounds \<lparr>px = X, py = Y\<rparr>"
  shows "cellContent (g\<lparr>cells := (cells g)[nat X := js_set (cells g ! nat X) Y v]\<rparr>) \<lparr>px = X, py = Y\<rparr> = Inr v"
  using assms by (simp add: cellContent_def withinBounds_def js_read2_def js_row_def)

text \<open>C20: after a successful \<open>insertTile\<close> of a tile whose position is within the 4 by 4 bounds, \<open>cellContent\<close> at that position returns the same tile object (insert/lookup round trip).\<close>

theorem insertTile_cellContent:
  assumes "insertTile h r g = Inr g'" "objs h r = Some t"
    and "withinBounds \<lparr>px = tx t, py = ty t\<rparr>"
  shows "cellContent g' \<lparr>px = tx t, py = ty t\<rparr> = Inr (Some r)"
proof -
  note w = insertTile_Inr_tile [OF assms(1,2)]
  show ?thesis using cellContent_write [OF conjunct1 [OF w] conjunct1 [OF conjunct2 [OF w]]] assms(3) w by simp
qed

text \<open>C21: after a successful \<open>removeTile\<close>, \<open>cellContent\<close> at the tile's position returns no tile.\<close>

theorem removeTile_cellContent:
  assumes "removeTile h r g = Inr g'" "objs h r = Some t"
  shows "cellContent g' \<lparr>px = tx t, py = ty t\<rparr> = Inr None"
proof -
  note w = removeTile_Inr_tile [OF assms(1,2)]
  show ?thesis
  proof (cases "withinBounds \<lparr>px = tx t, py = ty t\<rparr>")
    case True
    with cellContent_write [OF conjunct1 [OF w] conjunct1 [OF conjunct2 [OF w]]] w show ?thesis by simp
  next
    case False
    then show ?thesis by (simp add: cellContent_def)
  qed
qed

lemma cell_step_inv: "grid_inv h g \<Longrightarrow> cell_step h g op = Inr g' \<Longrightarrow> grid_inv h g'"
  by (cases op) (auto simp add: grid_inv_def dest: insertTile_invs removeTile_invs)

subsection \<open>Queries\<close>

lemma random_index:
  assumes "0 \<le> r" "r < 1" "0 < n"
  shows "0 \<le> \<lfloor>r * real n\<rfloor>" and "nat \<lfloor>r * real n\<rfloor> < n"
proof -
  show "0 \<le> \<lfloor>r * real n\<rfloor>" using assms by simp
  have "r * real n < real n" using assms by simp
  then have "\<lfloor>r * real n\<rfloor> < int n" by (simp add: floor_less_iff)
  then show "nat \<lfloor>r * real n\<rfloor> < n" using \<open>0 \<le> \<lfloor>r * real n\<rfloor>\<close> by (simp add: nat_less_iff)
qed

lemma randomAvailableCell_nth:
  assumes "availableCells g = Inr cs" "cs \<noteq> []" "0 \<le> r" "r < 1"
  shows "randomAvailableCell g r = Inr (Some (cs ! nat \<lfloor>r * real (length cs)\<rfloor>))"
    and "nat \<lfloor>r * real (length cs)\<rfloor> < length cs"
proof -
  have "0 < length cs" using assms(2) by simp
  note i = random_index [OF assms(3,4) this]
  show "nat \<lfloor>r * real (length cs)\<rfloor> < length cs" by (rule i(2))
  then show "randomAvailableCell g r = Inr (Some (cs ! nat \<lfloor>r * real (length cs)\<rfloor>))"
    using assms(1,2) i(1) by (simp add: randomAvailableCell_def js_get_def)
qed

lemma floor_nat_iff:
  "0 \<le> x \<Longrightarrow> nat \<lfloor>x\<rfloor> = k \<longleftrightarrow> real k \<le> x \<and> x < real k + 1"
  by (auto simp add: nat_eq_iff floor_eq_iff)

lemma cellContent_in:
  "wf_grid g \<Longrightarrow> x < min 4 (grid_size g) \<Longrightarrow> y < 4 \<Longrightarrow>
     cellContent g \<lparr>px = int x, py = int y\<rparr> = Inr (cell g x y)"
  by (simp add: cellContent_def withinBounds_def)

lemma cellAvailable_outside:
  "\<not> withinBounds c \<Longrightarrow> cellAvailable g c = Inr True"
  by (simp add: cellAvailable_def cellOccupied_def cellContent_def)

subsection \<open>Properties of the cell queries\<close>

text \<open>C34: on a well-formed grid, \<open>randomAvailableCell\<close> with the draw \<open>r\<close> of \<open>Math.random()\<close> in [0, 1) returns the k-th available cell exactly when \<open>r\<close> lies in [k/n, (k+1)/n), n the number of available cells: each available cell is drawn from an interval of length 1/n, so the choice is uniform over the available cells.\<close>

theorem randomAvailableCell_uniform:
  assumes "wf_grid g" "availableCells g = Inr cs" "k < length cs" "0 \<le> r" "r < 1"
  shows "randomAvailableCell g r = Inr (Some (cs ! k)) \<longleftrightarrow>
           real k \<le> r * real (length cs) \<and> r * real (length cs) < real k + 1"
proof -
  have ne: "cs \<noteq> []" using assms(3) by auto
  have d: "distinct cs"
    using assms(1,2) availableCells_wf distinct_available by fastforce
  note nth = randomAvailableCell_nth [OF assms(2) ne assms(4,5)]
  have "randomAvailableCell g r = Inr (Some (cs ! k)) \<longleftrightarrow> nat \<lfloor>r * real (length cs)\<rfloor> = k"
    using nth d assms(3) by (simp add: nth_eq_iff_index_eq)
  also have "\<dots> \<longleftrightarrow> real k \<le> r * real (length cs) \<and> r * real (length cs) < real k + 1"
    using assms(4) by (simp add: floor_nat_iff)
  finally show ?thesis .
qed

text \<open>C36: with exactly one available cell, \<open>randomAvailableCell\<close> returns that cell for every draw in [0, 1).\<close>

theorem randomAvailableCell_single:
  assumes "availableCells g = Inr [c]" "0 \<le> r" "r < 1"
  shows "randomAvailableCell g r = Inr (Some c)"
  using randomAvailableCell_nth [OF assms(1) _ assms(2,3)] by simp

text \<open>C37: with no available cell, \<open>randomAvailableCell\<close> returns \<open>undefined\<close>.\<close>

theorem randomAvailableCell_full:
  "availableCells g = Inr [] \<Longrightarrow> randomAvailableCell g r = Inr None"
  by (simp add: randomAvailableCell_def)

text \<open>C24: a grid constructed without a previous state is well-formed, holds no tile, its available cells are all \<open>size * size\<close> coordinates in row-major order, and \<open>cellsAvailable\<close> holds exactly when \<open>size\<close> is positive; the store is untouched.\<close>

theorem empty_grid:
  "\<exists>g. Grid n None h = Inr (g, h) \<and> wf_grid g \<and> board h' g = Map.empty \<and>
       availableCells g = Inr (map (\<lambda>(x, y). \<lparr>px = int x, py = int y\<rparr>) (coords n)) \<and>
       cellsAvailable g = Inr (0 < n)"
proof -
  let ?g = "\<lparr>grid_size = n, cells = replicate n (replicate n None),
             highestTileLogValue = Some 0, playerTurn = None\<rparr>"
  have wf: "wf_grid ?g" by (simp add: wf_grid_def)
  have c: "\<And>x y. cell ?g x y = None"
    by (simp add: cell_def js_row_def js_get_def)
  have "availableCells ?g = Inr (map (\<lambda>(x, y). \<lparr>px = int x, py = int y\<rparr>) (coords n))"
    using availableCells_wf [OF wf] by (simp add: c concat_map_pair_singleton)
  moreover have "board h' ?g = Map.empty"
    by (simp add: board_def c fun_eq_iff)
  moreover have "map (\<lambda>(x, y). \<lparr>px = int x, py = int y\<rparr>) (coords n) \<noteq> [] \<longleftrightarrow> 0 < n"
    by (auto simp add: coords_def)
  ultimately show ?thesis
    using wf by (simp add: Grid_None cellsAvailable_def)
qed

text \<open>C39: because \<open>withinBounds\<close> is fixed to 4 by 4, \<open>cellContent\<close> on a well-formed grid with \<open>size < 4\<close> raises a TypeError for an in-bounds position in the first missing row.\<close>

theorem cellContent_small_grid:
  "wf_grid g \<Longrightarrow> grid_size g < 4 \<Longrightarrow> 0 \<le> y \<Longrightarrow> y < 4 \<Longrightarrow>
     cellContent g \<lparr>px = int (grid_size g), py = y\<rparr> = Inl TypeError"
  by (simp add: cellContent_def withinBounds_def js_read2_def js_row_def wf_grid_def)

text \<open>C38: on a 4 by 4 grid the two availability queries agree: for a position within bounds, \<open>cellAvailable\<close> holds exactly when the position is among \<open>availableCells\<close>.\<close>

theorem cellAvailable_availableCells:
  assumes "wf_grid g" "grid_size g = 4" "availableCells g = Inr cs" "withinBounds c"
  shows "cellAvailable g c = Inr (c \<in> set cs)"
proof -
  obtain x y where c: "c = \<lparr>px = int x, py = int y\<rparr>" "x < 4" "y < 4"
    using assms(4) unfolding withinBounds_def
    by (metis nat_0_le nat_less_iff numeral_less_iff of_nat_numeral position.surjective old.unit.exhaust)
  have "c \<in> set cs \<longleftrightarrow> cell g x y = None"
    using assms(1-3) c by (auto simp add: availableCells_wf set_available)
  then show ?thesis
    using assms(1,2) c by (simp add: cellAvailable_def cellOccupied_def cellContent_in)
qed

text \<open>C3: the grid invariant (one row per coordinate, every stored reference an object, every tile at the cell of its own position) holds after any sequence of \<open>insertTile\<close> and \<open>removeTile\<close> calls that returns normally.\<close>

theorem cell_run_inv:
  "grid_inv h g \<Longrightarrow> cell_run h g ops = Inr g' \<Longrightarrow> grid_inv h g'"
proof (induction ops arbitrary: g)
  case Nil
  then show ?case by (simp add: cell_run_def)
next
  case (Cons op ops)
  then obtain g1 where "cell_step h g op = Inr g1" "cell_run h g1 ops = Inr g'"
    by (auto simp add: cell_run_def)
  with Cons show ?case by (blast intro: cell_step_inv)
qed

text \<open>C4: A sequence of \<open>insertTile\<close>/\<open>removeTile\<close> calls that returns
  normally refines the abstract specification: the board of the final grid is the
  initial board with the abstract steps \<open>board_step\<close> applied in the same order.\<close>

theorem cell_run_board:
  "wf_grid g \<Longrightarrow> cell_run h g ops = Inr g' \<Longrightarrow>
     board h g' = fold (\<lambda>op b. board_step (grid_size g) h b op) ops (board h g)"
proof (induction ops arbitrary: g)
  case Nil
  then show ?case by (simp add: cell_run_def)
next
  case (Cons op ops)
  then obtain g1 where s: "cell_step h g op = Inr g1" "cell_run h g1 ops = Inr g'"
    by (auto simp add: cell_run_def)
  note b = cell_step_board [OF Cons.prems(1) s(1)]
  show ?case using Cons.IH [of g1] b s(2) by simp
qed

text \<open>C40: on a grid larger than 4 by 4, a tile inserted at x = 4 is stored on the board, yet \<open>cellAvailable\<close> reports its cell as available, because \<open>withinBounds\<close> ignores \<open>size\<close>.\<close>

theorem insert_beyond_withinBounds:
  assumes "wf_grid g" "4 < grid_size g" "insertTile h r g = Inr g'" "objs h r = Some t"
    and "tx t = 4" "0 \<le> ty t" "ty t < int (grid_size g)"
  shows "board h g' (4, nat (ty t)) = Some t \<and> cellAvailable g' \<lparr>px = 4, py = ty t\<rparr> = Inr True"
proof
  note w = insertTile_Inr_tile [OF assms(3,4)]
  with board_write [OF assms(1) conjunct1 [OF w] conjunct1 [OF conjunct2 [OF w]], of h "ty t" "Some r"] assms(4-7)
  show "board h g' (4, nat (ty t)) = Some t" by simp
  show "cellAvailable g' \<lparr>px = 4, py = ty t\<rparr> = Inr True"
    by (rule cellAvailable_outside) (simp add: withinBounds_def)
qed

text \<open>C35: On a well-formed grid with an empty cell and a draw in
  [0, 1), \<open>randomAvailableCell\<close> returns a position inside the board whose cell is empty.\<close>

theorem randomAvailableCell_free:
  assumes "wf_grid g" "0 \<le> random" "random < 1"
    and "\<exists>x y. x < grid_size g \<and> y < grid_size g \<and> cell g x y = None"
  shows "\<exists>x y. randomAvailableCell g random = Inr (Some \<lparr>px = int x, py = int y\<rparr>) \<and>
           x < grid_size g \<and> y < grid_size g \<and> cell g x y = None"
proof -
  let ?cs = "[\<lparr>px = int x, py = int y\<rparr>. (x, y) \<leftarrow> coords (grid_size g), cell g x y = None]"
  have av: "availableCells g = Inr ?cs" by (rule availableCells_wf [OF assms(1)])
  have ne: "?cs \<noteq> []"
  proof
    assume "?cs = []"
    then have "set ?cs = {}" by (metis set_empty)
    then have "{\<lparr>px = int x, py = int y\<rparr> | x y. x < grid_size g \<and> y < grid_size g \<and> cell g x y = None} = {}"
      by (simp only: set_available)
    then show False using assms(4) by blast
  qed
  note rc = randomAvailableCell_nth [OF av ne assms(2,3)]
  have "?cs ! nat \<lfloor>random * real (length ?cs)\<rfloor> \<in> set ?cs" using rc(2) by (rule nth_mem)
  then obtain x y where "?cs ! nat \<lfloor>random * real (length ?cs)\<rfloor> = \<lparr>px = int x, py = int y\<rparr>"
      "x < grid_size g" "y < grid_size g" "cell g x y = None"
    by (simp only: set_available) blast
  then show ?thesis using rc(1) by auto
qed

text \<open>C23: \<open>insertTile\<close> does not check occupancy.  Inserting a tile
  at an occupied cell of a grid satisfying the invariant replaces the occupant on the
  board, and the old tile object silently leaves the grid: no cell refers to it any more.\<close>

theorem insertTile_overwrite:
  assumes inv: "grid_inv h g" and old: "cell g x y = Some r0" and ne: "r \<noteq> r0"
    and ins: "insertTile h r g = Inr g'" and t: "objs h r = Some t"
    and pos: "tx t = int x" "ty t = int y" and y: "y < grid_size g"
  shows "board h g' (x, y) = Some t \<and> r0 \<notin> grid_refs g'"
proof -
  have wf: "wf_grid g" and ro: "refs_ok h g" and pi: "pos_inv h g" using inv by (simp_all add: grid_inv_def)
  note w = insertTile_Inr_tile [OF ins t]
  have g': "g' = g\<lparr>cells := (cells g)[nat (int x) := js_set (cells g ! nat (int x)) (int y) (Some r)]\<rparr>"
    using w pos by simp
  have lx: "nat (int x) < length (cells g)" using w pos by simp
  have cw: "\<And>a b. cell g' a b = (if a = x \<and> b = y then Some r else cell g a b)"
    using cell_write [of "int x" g "int y" "Some r"] lx g' by simp
  have "board h g' (x, y) = Some t"
    using cw [of x y] t y wf lx g' by (simp add: board_def wf_grid_def)
  moreover have "r0 \<notin> grid_refs g'"
  proof
    assume "r0 \<in> grid_refs g'"
    then obtain a b where c: "cell g' a b = Some r0" using grid_refs_cell by blast
    show False
    proof (cases "a = x \<and> b = y")
      case True
      then show False using c cw ne by simp
    next
      case False
      then have "cell g' a b = cell g a b" using cw [of a b] by (simp only: if_False)
      then have ca: "cell g a b = Some r0" using c by simp
      obtain t0 where t0: "objs h r0 = Some t0" using refs_ok_cell [OF ro old] by blast
      have "tx t0 = int a \<and> ty t0 = int b" using pi ca t0 unfolding pos_inv_cell by blast
      moreover have "tx t0 = int x \<and> ty t0 = int y" using pi old t0 unfolding pos_inv_cell by blast
      ultimately show False using False by simp
    qed
  qed
  ultimately show ?thesis ..
qed

end
