(* ===== verification/Grid_Score.thy ===== *)
theory Grid_Score
  imports Grid_Cells
begin

text \<open>
  The difficulty-aware tile generator and the score heuristic of
  \<open>src/js/grid_zen.js\<close> (lines 105--184): \<open>lowestTileLogValue\<close> and
  \<open>evenNumLowValues\<close> (which scan a fixed 4 by 4 region), \<open>getHighestTileLogValue\<close>,
  \<open>getGeneratedTileValue\<close> and \<open>getScore\<close>.  The global \<open>gameDifficulty\<close> is an
  argument.  \<open>highestTileLogValue\<close> is \<open>None\<close> when it holds \<open>undefined\<close>
  (\<open>vals[0]\<close> of an empty list); a generated value or a score of \<open>None\<close> is a
  non-finite JavaScript number.  The loop of \<open>getScore\<close> is \<open>score_loop\<close>, a
  function on the loop index that terminates because \<open>length vals - i\<close> decreases.
\<close>

definition lowestTileLogValue :: "store \<Rightarrow> grid \<Rightarrow> int js_result" where
  "lowestTileLogValue h g =
     for_upto_e 4 (\<lambda>lowestVal x.
       for_upto_e 4 (\<lambda>lowestVal y.
         js_bind (js_read2 (cells g) (int x) (int y)) (\<lambda>c.
           case c of
             None \<Rightarrow> Inr lowestVal
           | Some r \<Rightarrow> js_bind (get_tile h r) (\<lambda>t.
               Inr (if logValue t < lowestVal \<or> lowestVal < 0 then logValue t else lowestVal))))
         lowestVal)
       (-1)"

definition evenNumLowValues :: "store \<Rightarrow> grid \<Rightarrow> bool js_result" where
  "evenNumLowValues h g =
     js_bind (lowestTileLogValue h g) (\<lambda>lowestVal.
       js_bind
         (for_upto_e 4 (\<lambda>num x.
            for_upto_e 4 (\<lambda>num y.
              js_bind (js_read2 (cells g) (int x) (int y)) (\<lambda>c.
                case c of
                  None \<Rightarrow> Inr num
                | Some r \<Rightarrow> js_bind (get_tile h r) (\<lambda>t.
                    Inr (if logValue t = lowestVal then Suc num else num))))
              num)
            (0::nat))
         (\<lambda>num. Inr (num mod 2 = 0)))"

definition getHighestTileLogValue :: "grid \<Rightarrow> int option" where
  "getHighestTileLogValue g = highestTileLogValue g"

definition getGeneratedTileValue :: "int \<Rightarrow> grid \<Rightarrow> int option" where
  "getGeneratedTileValue gameDifficulty g =
     (case getHighestTileLogValue g of
        None \<Rightarrow> None
      | Some highLogValue \<Rightarrow>
          (let tileLogValue = \<lceil>real_of_int highLogValue / 2\<rceil>
           in Some (if highLogValue - tileLogValue > gameDifficulty
                    then highLogValue - gameDifficulty else tileLogValue)))"

function score_loop :: "int list \<Rightarrow> int option \<Rightarrow> nat \<Rightarrow> real option \<Rightarrow> real option" where
  "score_loop vals lowTile i way2 =
     (case lowTile of
        None \<Rightarrow> way2
      | Some low \<Rightarrow>
          if i < length vals \<and> low < vals ! i
          then score_loop vals lowTile (Suc i)
                 (js_add way2
                   (map_option (\<lambda>a. a ^ 2 * (9 / 10 ^ i))
                     (js_div (of_int (vals ! i - low)) (of_int (vals ! (i - 1) - low)))))
          else way2)"
  by pat_completeness auto
termination
  by (relation "measure (\<lambda>(vals, lowTile, i, way2). length vals - i)") auto

definition getScore :: "int \<Rightarrow> store \<Rightarrow> grid \<Rightarrow> (grid \<times> real option) js_result" where
  "getScore gameDifficulty h g =
     js_bind
       (for_upto_e (grid_size g) (\<lambda>vals x.
          for_upto_e (grid_size g) (\<lambda>vals y.
            js_bind (js_read2 (cells g) (int x) (int y)) (\<lambda>c.
              case c of
                None \<Rightarrow> Inr vals
              | Some r \<Rightarrow> js_bind (get_tile h r) (\<lambda>t. Inr (vals @ [logValue t]))))
            vals)
          [])
       (\<lambda>vals0.
          let vals = js_sort (\<lambda>a b. b - a) vals0;
              g' = g\<lparr>highestTileLogValue := js_get (map Some vals) 0\<rparr>;
              lowTile = getGeneratedTileValue gameDifficulty g';
              way2 = score_loop vals lowTile 1 (Some 0)
          in Inr (g', Option.bind (js_get (map Some vals) 0)
                        (\<lambda>v0. js_add way2 (Some (of_int v0 - 1)))))"

text \<open>A reference for the loop of \<open>getScore\<close>: the sum of its terms over the
  run of values above \<open>lowTile\<close> that follows \<open>vals[0]\<close>.\<close>

definition score_term :: "int list \<Rightarrow> int \<Rightarrow> nat \<Rightarrow> real" where
  "score_term vals low i = (of_int (vals ! i - low) / of_int (vals ! (i - 1) - low)) ^ 2 * (9 / 10 ^ i)"

definition score_sum :: "int list \<Rightarrow> int \<Rightarrow> real" where
  "score_sum vals low =
     (\<Sum>i = 1..<Suc (length (takeWhile (\<lambda>v. low < v) (drop 1 vals))). score_term vals low i)"

text \<open>The log values of the tiles in the first \<open>n\<close> rows and columns, in the
  row-major order of the code's traversals; \<open>tile_values\<close> takes the whole board.\<close>

definition region_values :: "store \<Rightarrow> grid \<Rightarrow> nat \<Rightarrow> int list" where
  "region_values h g n =
     concat (map (\<lambda>(x, y). case cell g x y of None \<Rightarrow> [] | Some r \<Rightarrow> [logValue (the (objs h r))])
       (coords n))"

definition tile_values :: "store \<Rightarrow> grid \<Rightarrow> int list" where
  "tile_values h g = region_values h g (grid_size g)"

text \<open>The update of the running minimum in the loop of \<open>lowestTileLogValue\<close>.\<close>

definition lowest_step :: "int \<Rightarrow> int \<Rightarrow> int" where
  "lowest_step lowestVal v = (if v < lowestVal \<or> lowestVal < 0 then v else lowestVal)"

declare score_loop.simps [simp del]

lemma ceiling_half: "\<lceil>real_of_int k / 2\<rceil> = (k + 1) div 2"
proof -
  have "\<lceil>real_of_int k / real_of_int 2\<rceil> = - (- k div 2)" by (rule ceiling_divide_eq_div)
  also have "\<dots> = (k + 1) div 2" by presburger
  finally show ?thesis by simp
qed

text \<open>C28: When the highest log value is a number \<open>hv\<close>, the generated tile log value is \<open>max (ceil (hv / 2)) (hv - gameDifficulty)\<close>: half the highest value, raised so that it is never more than \<open>gameDifficulty\<close> below it.\<close>

theorem getGeneratedTileValue_Some:
  "getHighestTileLogValue g = Some hv \<Longrightarrow>
     getGeneratedTileValue d g = Some (max ((hv + 1) div 2) (hv - d))"
  by (auto simp add: getGeneratedTileValue_def ceiling_half Let_def)

lemma getGeneratedTileValue_None:
  "getHighestTileLogValue g = None \<Longrightarrow> getGeneratedTileValue d g = None"
  by (simp add: getGeneratedTileValue_def)

lemma tile_values_board:
  assumes "refs_ok h g"
  shows "tile_values h g =
           concat (map (\<lambda>p. case board h g p of None \<Rightarrow> [] | Some t \<Rightarrow> [logValue t]) (coords (grid_size g)))"
  unfolding tile_values_def region_values_def
proof (rule arg_cong [where f = concat], rule map_cong [OF refl], clarify)
  fix x y assume "(x, y) \<in> set (coords (grid_size g))"
  then have xy: "x < grid_size g" "y < grid_size g" by simp_all
  show "(case cell g x y of None \<Rightarrow> [] | Some r \<Rightarrow> [logValue (the (objs h r))]) =
        (case board h g (x, y) of None \<Rightarrow> [] | Some t \<Rightarrow> [logValue t])"
  proof (cases "cell g x y")
    case (Some r)
    then obtain t where "objs h r = Some t" using refs_ok_cell [OF assms] by blast
    then show ?thesis using Some xy by (simp add: board_def)
  qed (simp add: board_def)
qed

lemma fold_collect:
  "fold (\<lambda>(x, y) vals. case cell g x y of None \<Rightarrow> vals | Some r \<Rightarrow> vals @ [f r]) xs acc =
     acc @ concat (map (\<lambda>(x, y). case cell g x y of None \<Rightarrow> [] | Some r \<Rightarrow> [f r]) xs)"
  by (induction xs arbitrary: acc) (auto split: option.splits)

lemma collect_values:
  assumes "wf_grid g" "refs_ok h g"
  shows "for_upto_e (grid_size g) (\<lambda>vals x.
          for_upto_e (grid_size g) (\<lambda>vals y.
            js_bind (js_read2 (cells g) (int x) (int y)) (\<lambda>c.
              case c of
                None \<Rightarrow> Inr vals
              | Some r \<Rightarrow> js_bind (get_tile h r) (\<lambda>t. Inr (vals @ [logValue t]))))
            vals)
          [] = Inr (tile_values h g)"
proof -
  let ?body = "\<lambda>vals (x, y). js_bind (js_read2 (cells g) (int x) (int y)) (\<lambda>c.
              case c of
                None \<Rightarrow> Inr vals
              | Some r \<Rightarrow> js_bind (get_tile h r) (\<lambda>t. Inr (vals @ [logValue t])))"
  have "\<And>vals xy. xy \<in> set (coords (grid_size g)) \<Longrightarrow>
     ?body vals xy = Inr ((\<lambda>vals (x, y). case cell g x y of None \<Rightarrow> vals
                           | Some r \<Rightarrow> vals @ [logValue (the (objs h r))]) vals xy)"
    using assms by (auto simp add: get_tile_dom refs_ok_cell split: option.splits)
  then have "for_each_e (coords (grid_size g)) ?body [] =
      Inr (fold (\<lambda>xy vals. (\<lambda>vals (x, y). case cell g x y of None \<Rightarrow> vals
                           | Some r \<Rightarrow> vals @ [logValue (the (objs h r))]) vals xy) (coords (grid_size g)) [])"
    by (rule for_each_e_Inr)
  also have "\<dots> = Inr (tile_values h g)"
    using fold_collect [where g = g and f = "\<lambda>r. logValue (the (objs h r))" and xs = "coords (grid_size g)" and acc = "[]"]
    by (simp add: tile_values_def region_values_def case_prod_unfold)
  finally have "for_each_e (coords (grid_size g)) ?body [] = Inr (tile_values h g)" .
  then show ?thesis
    using for_upto_e_nested [where body = ?body] by simp
qed

lemma sorted_desc_nth:
  "sorted_wrt (\<ge>) (vals :: int list) \<Longrightarrow> j < i \<Longrightarrow> i < length vals \<Longrightarrow> vals ! i \<le> vals ! j"
  by (simp add: sorted_wrt_iff_nth_less)




lemma score_loop_sum:
  assumes "sorted_wrt (\<ge>) vals" "1 \<le> i" "lowTile = Some low" "way2 = Some w"
  shows "score_loop vals lowTile i way2 =
           Some (w + (\<Sum>j = i..<i + length (takeWhile (\<lambda>v. low < v) (drop i vals)). score_term vals low j))"
  using assms
proof (induction vals lowTile i way2 arbitrary: w rule: score_loop.induct)
  case (1 vals lowTile i way2)
  show ?case
  proof (cases "i < length vals \<and> low < vals ! i")
    case True
    let ?L = "length (takeWhile (\<lambda>v. low < v) (drop (Suc i) vals))"
    have d: "drop i vals = vals ! i # drop (Suc i) vals" using True by (simp add: Cons_nth_drop_Suc)
    have len: "length (takeWhile (\<lambda>v. low < v) (drop i vals)) = Suc ?L" using True d by simp
    have le: "vals ! i \<le> vals ! (i - 1)"
      using sorted_desc_nth [OF "1.prems"(1)] True "1.prems"(2) by simp
    have q: "real_of_int (vals ! (i - 1) - low) \<noteq> 0" using True le by simp
    have e: "js_add way2 (map_option (\<lambda>a. a ^ 2 * (9 / 10 ^ i))
               (js_div (of_int (vals ! i - low)) (of_int (vals ! (i - 1) - low)))) =
             Some (w + score_term vals low i)"
      using "1.prems"(4) q by (simp add: js_div_def js_add_def score_term_def)
    have step: "score_loop vals lowTile i way2 =
                score_loop vals lowTile (Suc i) (Some (w + score_term vals low i))"
      unfolding score_loop.simps [of vals lowTile i way2] using True "1.prems"(3) e by simp
    have "score_loop vals lowTile (Suc i) (Some (w + score_term vals low i)) =
          Some (w + score_term vals low i + (\<Sum>j = Suc i..<Suc i + ?L. score_term vals low j))"
      using "1.IH" [OF "1.prems"(3) True "1.prems"(1) _ "1.prems"(3) e] unfolding e by simp
    moreover have "(\<Sum>j = i..<i + Suc ?L. score_term vals low j) =
                   score_term vals low i + (\<Sum>j = Suc i..<Suc i + ?L. score_term vals low j)"
      by (simp add: sum.atLeast_Suc_lessThan)
    ultimately show ?thesis using step len by simp
  next
    case False
    then have "takeWhile (\<lambda>v. low < v) (drop i vals) = []"
    proof (cases "i < length vals")
      case True
      then have "drop i vals = vals ! i # drop (Suc i) vals" by (simp add: Cons_nth_drop_Suc)
      then show ?thesis using False True by simp
    qed simp
    moreover have "score_loop vals lowTile i way2 = way2"
      unfolding score_loop.simps [of vals lowTile i way2] using False "1.prems"(3) by auto
    ultimately show ?thesis using "1.prems"(4) by simp
  qed
qed

lemma score_loop_score_sum:
  "sorted_wrt (\<ge>) vals \<Longrightarrow> score_loop vals (Some low) 1 (Some 0) = Some (score_sum vals low)"
  using score_loop_sum [of vals 1 "Some low" low "Some 0" 0] by (simp add: score_sum_def)

lemma sort_mset_cong: "mset xs = mset ys \<Longrightarrow> sort xs = sort ys"
  by (metis sorted_list_of_multiset_mset)

lemma hd_rev_sort_Max:
  assumes "(xs :: int list) \<noteq> []"
  shows "js_get (map Some (rev (sort xs))) 0 = Some (Max (set xs))"
proof -
  have ne: "sort xs \<noteq> []" using assms by (metis length_0_conv length_sort)
  have "last (sort xs) = Max (set xs)"
  proof (rule Max_eqI [symmetric])
    show "finite (set xs)" by simp
    show "last (sort xs) \<in> set xs" using ne by (metis last_in_set set_sort)
    fix y assume "y \<in> set xs"
    then have "y \<in> set (sort xs)" by simp
    then obtain k where k: "k < length (sort xs)" "sort xs ! k = y" by (metis in_set_conv_nth)
    have "sort xs ! k \<le> sort xs ! (length (sort xs) - 1)"
      using k(1) by (intro sorted_nth_mono) auto
    then show "y \<le> last (sort xs)" using k ne by (simp add: last_conv_nth)
  qed
  then show ?thesis using ne assms by (simp add: js_get_def hd_conv_nth [symmetric] hd_map hd_rev)
qed

lemma sorted_desc_rev_sort: "sorted_wrt (\<ge>) (rev (sort (xs :: int list)))"
  by (simp add: sorted_wrt_rev)

lemma getScore_wf:
  assumes "wf_grid g" "refs_ok h g"
  shows "getScore d h g =
    (let vals = rev (sort (tile_values h g));
         g' = g\<lparr>highestTileLogValue := js_get (map Some vals) 0\<rparr>
     in Inr (g', Option.bind (js_get (map Some vals) 0)
                 (\<lambda>v0. js_add (score_loop vals (getGeneratedTileValue d g') 1 (Some 0)) (Some (of_int v0 - 1)))))"
  using collect_values [OF assms] by (simp add: getScore_def js_sort_desc_rev_sort Let_def)


text \<open>C27: On a grid with no tiles, \<open>getScore\<close> sets \<open>highestTileLogValue\<close> to \<open>undefined\<close> and returns a non-finite score (\<open>NaN\<close>): \<open>vals[0] - 1\<close> of an empty array.\<close>

theorem getScore_empty:
  assumes "wf_grid g" "refs_ok h g" "tile_values h g = []"
  shows "getScore d h g = Inr (g\<lparr>highestTileLogValue := None\<rparr>, None)"
  using getScore_wf [OF assms(1,2)] assms(3) by (simp add: js_get_def)

text \<open>C13: \<open>getScore\<close> depends only on the multiset of log values on the
  board: two well-formed grids whose tiles carry the same log values, in any cells and
  any order, get the same score and record the same highest log value.\<close>

theorem getScore_mset:
  assumes "wf_grid g" "refs_ok h g" "wf_grid g'" "refs_ok h' g'"
    and "mset (tile_values h g) = mset (tile_values h' g')"
  shows "map_sum id snd (getScore d h g) = map_sum id snd (getScore d h' g') \<and>
         map_sum id (highestTileLogValue \<circ> fst) (getScore d h g) =
         map_sum id (highestTileLogValue \<circ> fst) (getScore d h' g')"
  using sort_mset_cong [OF assms(5)]
  by (simp add: getScore_wf [OF assms(1,2)] getScore_wf [OF assms(3,4)] Let_def
      getGeneratedTileValue_def getHighestTileLogValue_def)


lemma fold_region:
  "fold (\<lambda>xy s. case cell g (fst xy) (snd xy) of None \<Rightarrow> s | Some r \<Rightarrow> f s (lv r)) xs s =
   fold (\<lambda>v s. f s v) (concat (map (\<lambda>(x, y). case cell g x y of None \<Rightarrow> [] | Some r \<Rightarrow> [lv r]) xs)) s"
  by (induction xs arbitrary: s) (auto split: option.splits)

lemma scan_region:
  assumes "wf_grid g" "refs_ok h g" "n \<le> grid_size g"
  shows "for_upto_e n (\<lambda>s x. for_upto_e n (\<lambda>s y.
           js_bind (js_read2 (cells g) (int x) (int y)) (\<lambda>c.
             case c of None \<Rightarrow> Inr s
             | Some r \<Rightarrow> js_bind (get_tile h r) (\<lambda>t. Inr (f s (logValue t))))) s) s0 =
         Inr (fold (\<lambda>v s. f s v) (region_values h g n) s0)"
proof -
  let ?body = "\<lambda>s (x, y). js_bind (js_read2 (cells g) (int x) (int y)) (\<lambda>c.
             case c of None \<Rightarrow> Inr s
             | Some r \<Rightarrow> js_bind (get_tile h r) (\<lambda>t. Inr (f s (logValue t))))"
  let ?F = "\<lambda>s xy. case cell g (fst xy) (snd xy) of None \<Rightarrow> s | Some r \<Rightarrow> f s (logValue (the (objs h r)))"
  have "\<And>s xy. xy \<in> set (coords n) \<Longrightarrow> ?body s xy = Inr (?F s xy)"
    using assms by (auto simp add: get_tile_dom refs_ok_cell split: option.splits)
  then have "for_each_e (coords n) ?body s0 = Inr (fold (\<lambda>xy s. ?F s xy) (coords n) s0)"
    by (rule for_each_e_Inr)
  also have "\<dots> = Inr (fold (\<lambda>v s. f s v) (region_values h g n) s0)"
    using fold_region [where g = g and f = f and lv = "\<lambda>r. logValue (the (objs h r))"
        and xs = "coords n" and s = s0]
    by (simp add: region_values_def case_prod_unfold)
  finally show ?thesis
    using for_upto_e_nested [where body = ?body] by simp
qed

lemma lowest_step_neg: "acc < 0 \<Longrightarrow> lowest_step acc v = v"
  by (simp add: lowest_step_def)

lemma lowest_step_nonneg: "0 \<le> acc \<Longrightarrow> lowest_step acc v = min acc v"
  by (simp add: lowest_step_def min_def)

lemma fold_lowest_nonneg:
  "\<forall>v \<in> set vs. 0 \<le> v \<Longrightarrow> 0 \<le> acc \<Longrightarrow>
     fold (\<lambda>v s. lowest_step s v) vs acc = Min (insert acc (set vs))"
proof (induction vs arbitrary: acc)
  case Nil then show ?case by simp
next
  case (Cons a vs)
  have "fold (\<lambda>v s. lowest_step s v) (a # vs) acc = fold (\<lambda>v s. lowest_step s v) vs (min acc a)"
    using Cons.prems(2) by (simp add: lowest_step_nonneg)
  also have "\<dots> = Min (insert (min acc a) (set vs))"
    using Cons by simp
  also have "\<dots> = Min (insert acc (set (a # vs)))"
    by (cases "set vs = {}") (simp_all add: Min_insert min.assoc)
  finally show ?case .
qed

lemma fold_lowest:
  "\<forall>v \<in> set vs. 0 \<le> v \<Longrightarrow>
     fold (\<lambda>v s. lowest_step s v) vs (-1) = (if vs = [] then -1 else Min (set vs))"
  by (cases vs) (simp_all add: lowest_step_neg fold_lowest_nonneg)

lemma lowestTileLogValue_scan:
  "lowestTileLogValue h g =
     for_upto_e 4 (\<lambda>s x. for_upto_e 4 (\<lambda>s y.
       js_bind (js_read2 (cells g) (int x) (int y)) (\<lambda>c.
         case c of None \<Rightarrow> Inr s
         | Some r \<Rightarrow> js_bind (get_tile h r) (\<lambda>t. Inr (lowest_step s (logValue t))))) s) (-1)"
  unfolding lowestTileLogValue_def lowest_step_def by (rule refl)

lemma fold_count:
  "fold (\<lambda>v num. if v = a then Suc num else num) vs n = n + count (mset vs) a"
  by (induction vs arbitrary: n) auto

lemma scan_region_error:
  assumes "wf_grid g" "grid_size g < n"
  shows "\<exists>e. for_upto_e n (\<lambda>s x. for_upto_e n (\<lambda>s y.
           js_bind (js_read2 (cells g) (int x) (int y)) (\<lambda>c. F s c)) s) s0 = Inl e"
proof -
  have "(grid_size g, 0) \<in> set (coords n)" using assms(2) by simp
  moreover have "\<And>s. \<exists>e. (\<lambda>s (x, y). js_bind (js_read2 (cells g) (int x) (int y)) (\<lambda>c. F s c))
                         s (grid_size g, 0) = Inl e"
    using assms(1) by (simp add: js_read2_def js_row_def wf_grid_def)
  ultimately have "\<exists>e. for_each_e (coords n)
      (\<lambda>s (x, y). js_bind (js_read2 (cells g) (int x) (int y)) (\<lambda>c. F s c)) s0 = Inl e"
    by (rule for_each_e_Inl)
  then show ?thesis
    by (simp only: for_upto_e_nested [where body = "\<lambda>s (x, y). js_bind (js_read2 (cells g) (int x) (int y)) (\<lambda>c. F s c)", simplified])
qed

lemma lowestTileLogValue_fold:
  assumes "wf_grid g" "refs_ok h g" "4 \<le> grid_size g"
  shows "lowestTileLogValue h g = Inr (fold (\<lambda>v s. lowest_step s v) (region_values h g 4) (-1))"
  unfolding lowestTileLogValue_scan by (rule scan_region [OF assms])

text \<open>C29: On a grid of size at least 4 whose tiles in the 4 by 4 region have non-negative log values, \<open>lowestTileLogValue\<close> returns the least log value of that region, or -1 when the region holds no tile; tiles outside the region are ignored.\<close>

theorem lowestTileLogValue_min:
  assumes "wf_grid g" "refs_ok h g" "4 \<le> grid_size g" "\<forall>v \<in> set (region_values h g 4). 0 \<le> v"
  shows "lowestTileLogValue h g =
           Inr (if region_values h g 4 = [] then -1 else Min (set (region_values h g 4)))"
  using lowestTileLogValue_fold [OF assms(1-3)] fold_lowest [OF assms(4)] by simp

text \<open>C31: On a grid of size below 4, \<open>lowestTileLogValue\<close> throws a TypeError: its loops are fixed to 4 and read a row that does not exist.\<close>

theorem lowestTileLogValue_small:
  "wf_grid g \<Longrightarrow> grid_size g < 4 \<Longrightarrow> \<exists>e. lowestTileLogValue h g = Inl e"
  unfolding lowestTileLogValue_def by (rule scan_region_error)

text \<open>C30: On a grid of size at least 4 with non-negative log values in the 4 by 4 region, \<open>evenNumLowValues\<close> holds exactly when the number of tiles of that region holding the lowest log value is even.\<close>

theorem evenNumLowValues_count:
  assumes "wf_grid g" "refs_ok h g" "4 \<le> grid_size g" "\<forall>v \<in> set (region_values h g 4). 0 \<le> v"
  shows "evenNumLowValues h g =
           Inr (even (count (mset (region_values h g 4))
                  (if region_values h g 4 = [] then -1 else Min (set (region_values h g 4)))))"
proof -
  let ?lo = "if region_values h g 4 = [] then -1 else Min (set (region_values h g 4))"
  have lo: "lowestTileLogValue h g = Inr ?lo"
    using lowestTileLogValue_fold [OF assms(1-3)] fold_lowest [OF assms(4)] by simp
  have c: "for_upto_e 4 (\<lambda>num x. for_upto_e 4 (\<lambda>num y.
              js_bind (js_read2 (cells g) (int x) (int y)) (\<lambda>c.
                case c of None \<Rightarrow> Inr num
                | Some r \<Rightarrow> js_bind (get_tile h r) (\<lambda>t.
                    Inr (if logValue t = ?lo then Suc num else num)))) num) 0
           = Inr (fold (\<lambda>v num. if v = ?lo then Suc num else num) (region_values h g 4) 0)"
    by (rule scan_region [OF assms(1-3)])
  show ?thesis
    unfolding evenNumLowValues_def lo js_bind_simps c
    by (simp add: fold_count even_iff_mod_2_eq_zero)
qed


text \<open>With a single tile of log value \<open>v\<close> the loop does not run and the score is
  exactly \<open>v - 1\<close>.\<close>

lemma getScore_single:
  assumes "wf_grid g" "refs_ok h g" "tile_values h g = [v]"
  shows "getScore d h g = Inr (g\<lparr>highestTileLogValue := Some v\<rparr>, Some (of_int v - 1))"
proof -
  have "\<And>t. score_loop [v] t 1 (Some 0) = Some 0"
    unfolding score_loop.simps [of "[v]" _ 1 "Some 0"] by (simp split: option.split)
  then show ?thesis
    using getScore_wf [OF assms(1,2)] assms(3) by (simp add: Let_def js_get_def)
qed

text \<open>C12: On a well-formed grid with at least one tile, \<open>getScore\<close>
  returns \<open>vals[0] - 1\<close> plus the closed-form sum \<open>score_sum\<close> of the loop's terms.
  Here \<open>vals\<close> is the descending list of log values, and the generated tile value
  \<open>max (ceil (m / 2)) (m - gameDifficulty)\<close> is the threshold.  The loop computes
  exactly this reference sum.\<close>

theorem getScore_closed_form:
  assumes "wf_grid g" "refs_ok h g" "tile_values h g \<noteq> []"
  shows "getScore d h g =
           Inr (g\<lparr>highestTileLogValue := Some (Max (set (tile_values h g)))\<rparr>,
                Some (score_sum (rev (sort (tile_values h g)))
                        (max ((Max (set (tile_values h g)) + 1) div 2) (Max (set (tile_values h g)) - d)) +
                      of_int (Max (set (tile_values h g))) - 1))"
proof -
  let ?m = "Max (set (tile_values h g))"
  let ?vals = "rev (sort (tile_values h g))"
  let ?g' = "g\<lparr>highestTileLogValue := Some ?m\<rparr>"
  let ?low = "max ((?m + 1) div 2) (?m - d)"
  have hd: "js_get (map Some ?vals) 0 = Some ?m" by (rule hd_rev_sort_Max [OF assms(3)])
  have low: "getGeneratedTileValue d ?g' = Some ?low"
    by (rule getGeneratedTileValue_Some) (simp add: getHighestTileLogValue_def)
  have "score_loop ?vals (Some ?low) 1 (Some 0) = Some (score_sum ?vals ?low)"
    by (rule score_loop_score_sum [OF sorted_desc_rev_sort])
  then show ?thesis using getScore_wf [OF assms(1,2)] hd low by (simp add: Let_def)
qed



end
