(* ===== verification/Grid_Snapshot.thy ===== *)
theory Grid_Snapshot
  imports Grid_Cells
begin

text \<open>
  Snapshots and copies of a grid, \<open>src/js/grid_zen.js\<close> lines 186--215:
  \<open>serialize()\<close>, which turns the grid into the plain record \<open>{size, cells}\<close>
  of serialized tiles, and \<open>clone()\<close>, which builds a new empty grid of the same size,
  copies \<open>playerTurn\<close> and inserts a clone of every tile.  Reconstruction from a snapshot
  is \<open>Grid\<close> with a previous state (\<open>fromState\<close>, theory \<open>Grid_Base\<close>).
  The helper predicates \<open>row_built\<close> and \<open>clone_prefix\<close> are the loop invariants of
  \<open>fromState\<close> and of the loop of \<open>clone\<close>; \<open>serialized_cells\<close> is the cell array
  \<open>serialize\<close> produces.  The results: \<open>serialize\<close> followed by reconstruction gives
  the same board with fresh tile objects, and a clone has the same board, satisfies the grid
  invariant and shares no tile object with the original.
\<close>

record grid_snapshot =
  snap_size :: nat
  snap_cells :: "tile_state option list list"

definition serialize :: "store \<Rightarrow> grid \<Rightarrow> grid_snapshot js_result" where
  "serialize h g =
     js_bind
       (for_upto_e (grid_size g) (\<lambda>cellState x.
          js_bind
            (for_upto_e (grid_size g) (\<lambda>row y.
               js_bind (js_read2 (cells g) (int x) (int y)) (\<lambda>c.
                 case c of
                   None \<Rightarrow> Inr (row @ [None])
                 | Some r \<Rightarrow> js_bind (get_tile h r) (\<lambda>t. Inr (row @ [Some (tile_serialize t)]))))
               [])
            (\<lambda>row. Inr (cellState @ [row])))
          [])
       (\<lambda>cellState. Inr \<lparr>snap_size = grid_size g, snap_cells = cellState\<rparr>)"

definition clone :: "store \<Rightarrow> grid \<Rightarrow> (grid \<times> store) js_result" where
  "clone h g =
     js_bind (Grid (grid_size g) None h) (\<lambda>(newGrid, h1).
       for_upto_e (grid_size g) (\<lambda>(newGrid, h) x.
         for_upto_e (grid_size g) (\<lambda>(newGrid, h) y.
           js_bind (js_read2 (cells g) (int x) (int y)) (\<lambda>c.
             case c of
               None \<Rightarrow> Inr (newGrid, h)
             | Some r \<Rightarrow> js_bind (tile_clone h r) (\<lambda>(r', h').
                 js_bind (insertTile h' r' newGrid) (\<lambda>newGrid'. Inr (newGrid', h')))))
           (newGrid, h))
         (newGrid\<lparr>playerTurn := playerTurn g\<rparr>, h1))"

subsection \<open>Loop invariants of reconstruction and cloning\<close>

definition row_built :: "store \<Rightarrow> store \<Rightarrow> ref option list \<Rightarrow> tile_state option list \<Rightarrow> nat \<Rightarrow> bool" where
  "row_built h0 h row srow m \<longleftrightarrow>
     (\<forall>y < m. map_option (\<lambda>r. the (objs h r)) (row ! y) = map_option state_tile (js_get srow (int y)) \<and>
              (\<forall>r. row ! y = Some r \<longrightarrow> next_ref h0 \<le> r \<and> r \<in> dom (objs h)))"

definition serialized_cells :: "store \<Rightarrow> grid \<Rightarrow> tile_state option list list" where
  "serialized_cells h g =
     map (\<lambda>x. map (\<lambda>y. map_option (\<lambda>r. tile_serialize (the (objs h r))) (cell g x y))
                 [0..<grid_size g]) [0..<grid_size g]"

definition clone_prefix :: "store \<Rightarrow> grid \<Rightarrow> (nat \<times> nat) list \<Rightarrow> grid \<Rightarrow> store \<Rightarrow> bool" where
  "clone_prefix h g ys ng h' \<longleftrightarrow>
     grid_size ng = grid_size g \<and> playerTurn ng = playerTurn g \<and> highestTileLogValue ng = Some 0 \<and>
     length (cells ng) = grid_size g \<and> (\<forall>x < grid_size g. length (cells ng ! x) = grid_size g) \<and>
     store_ok h' \<and> store_ext h h' \<and>
     (\<forall>x y r. cell ng x y = Some r \<longrightarrow>
        (x, y) \<in> set ys \<and> next_ref h \<le> r \<and> (\<exists>r0. cell g x y = Some r0 \<and> objs h' r = objs h r0)) \<and>
     (\<forall>x y. (x, y) \<in> set ys \<longrightarrow> cell g x y \<noteq> None \<longrightarrow> cell ng x y \<noteq> None)"

subsection \<open>Serialization and reconstruction\<close>

lemma serialize_Inr:
  assumes "wf_grid g" "refs_ok h g"
  shows "serialize h g =
           Inr \<lparr>snap_size = grid_size g,
                snap_cells = map (\<lambda>x. map (\<lambda>y. map_option (\<lambda>r. tile_serialize (the (objs h r))) (cell g x y))
                                    [0..<grid_size g]) [0..<grid_size g]\<rparr>"
proof -
  have inner: "\<And>x. x < grid_size g \<Longrightarrow>
    for_upto_e (grid_size g) (\<lambda>row y.
               js_bind (js_read2 (cells g) (int x) (int y)) (\<lambda>c.
                 case c of
                   None \<Rightarrow> Inr (row @ [None])
                 | Some r \<Rightarrow> js_bind (get_tile h r) (\<lambda>t. Inr (row @ [Some (tile_serialize t)])))) []
    = Inr ([] @ map (\<lambda>y. map_option (\<lambda>r. tile_serialize (the (objs h r))) (cell g x y)) [0..<grid_size g])"
    by (rule for_upto_e_map) (use assms in \<open>auto simp add: get_tile_dom refs_ok_cell split: option.split\<close>)
  show ?thesis
    unfolding serialize_def
    by (subst for_upto_e_map [where f = "\<lambda>x. map (\<lambda>y. map_option (\<lambda>r. tile_serialize (the (objs h r))) (cell g x y)) [0..<grid_size g]"])
       (simp_all add: inner)
qed

lemma row_built_ext:
  assumes "row_built h0 h row srow m" "store_ok h" "store_ext h h'"
  shows "row_built h0 h' row srow m"
  unfolding row_built_def
proof (intro allI impI)
  fix y assume y: "y < m"
  have r: "\<forall>r. row ! y = Some r \<longrightarrow> next_ref h0 \<le> r \<and> r \<in> dom (objs h)"
    and m: "map_option (\<lambda>r. the (objs h r)) (row ! y) = map_option state_tile (js_get srow (int y))"
    using assms(1) y unfolding row_built_def by blast+
  have e: "\<And>r. r \<in> dom (objs h) \<Longrightarrow> objs h' r = objs h r" by (rule store_ext_objs [OF assms(2,3)])
  have "map_option (\<lambda>r. the (objs h' r)) (row ! y) = map_option (\<lambda>r. the (objs h r)) (row ! y)"
    using r e by (cases "row ! y") auto
  moreover have "\<forall>r. row ! y = Some r \<longrightarrow> next_ref h0 \<le> r \<and> r \<in> dom (objs h')"
    using r e by (metis domIff)
  ultimately show "map_option (\<lambda>r. the (objs h' r)) (row ! y) = map_option state_tile (js_get srow (int y)) \<and>
      (\<forall>r. row ! y = Some r \<longrightarrow> next_ref h0 \<le> r \<and> r \<in> dom (objs h'))"
    using m by simp
qed

lemma row_built_mono:
  "row_built h1 h row srow m \<Longrightarrow> next_ref h0 \<le> next_ref h1 \<Longrightarrow> row_built h0 h row srow m"
  unfolding row_built_def using le_trans by blast

lemma fromState_row:
  assumes "store_ok h"
  shows "\<exists>row h'. for_upto_e n (\<lambda>(row, h) y.
              (case js_get srow (int y) of
                 None \<Rightarrow> Inr (row @ [None], h)
               | Some tile \<Rightarrow>
                   (let (r, h') = new_Tile (tile_position tile) (state_logValue tile) h
                    in Inr (row @ [Some r], h')))) ([], h) = Inr (row, h') \<and>
           length row = n \<and> store_ok h' \<and> store_ext h h' \<and> row_built h h' row srow n"
proof -
  let ?I = "\<lambda>i (row, h'). length row = i \<and> store_ok h' \<and> store_ext h h' \<and> row_built h h' row srow i"
  have "\<exists>s'. for_upto_e n (\<lambda>(row, h) y.
              (case js_get srow (int y) of
                 None \<Rightarrow> Inr (row @ [None], h)
               | Some tile \<Rightarrow>
                   (let (r, h') = new_Tile (tile_position tile) (state_logValue tile) h
                    in Inr (row @ [Some r], h')))) ([], h) = Inr s' \<and> ?I n s'"
  proof (rule for_upto_e_inv)
    fix i s assume "i < n" "?I i s"
    then obtain row h1 where s: "s = (row, h1)" "length row = i" "store_ok h1" "store_ext h h1"
        "row_built h h1 row srow i" by (cases s) auto
    show "\<exists>s'. (\<lambda>(row, h) y.
              (case js_get srow (int y) of
                 None \<Rightarrow> Inr (row @ [None], h)
               | Some tile \<Rightarrow>
                   (let (r, h') = new_Tile (tile_position tile) (state_logValue tile) h
                    in Inr (row @ [Some r], h')))) s i = Inr s' \<and> ?I (Suc i) s'"
    proof (cases "js_get srow (int i)")
      case None
      then show ?thesis using s by (auto simp add: row_built_def nth_append less_Suc_eq)
    next
      case (Some ts)
      obtain r h2 where a: "new_Tile (tile_position ts) (state_logValue ts) h1 = (r, h2)" by fastforce
      note f = new_Tile_fresh [OF s(3) a]
      have o: "objs h2 r = Some (state_tile ts)"
        using new_Tile_fields [OF a] by (simp add: state_tile_def)
      have "row_built h h2 row srow i" by (rule row_built_ext [OF s(5) s(3) f(2)])
      moreover have "next_ref h \<le> r" using s(4) f(3) by (simp add: store_ext_def)
      ultimately have "row_built h h2 (row @ [Some r]) srow (Suc i)"
        using Some o s(2) by (auto simp add: row_built_def nth_append less_Suc_eq)
      then show ?thesis using s Some a f store_ext_trans by auto
    qed
  qed (simp add: assms row_built_def)
  then show ?thesis by auto
qed

lemma fromState_Inr:
  assumes "store_ok h0" "n \<le> length state"
  shows "\<exists>cs h'. fromState n state h0 = Inr (cs, h') \<and> length cs = n \<and> store_ok h' \<and> store_ext h0 h' \<and>
           (\<forall>x < n. length (cs ! x) = n \<and> row_built h0 h' (cs ! x) (state ! x) n)"
proof -
  let ?I = "\<lambda>i (cs, h'). length cs = i \<and> store_ok h' \<and> store_ext h0 h' \<and>
              (\<forall>x < i. length (cs ! x) = n \<and> row_built h0 h' (cs ! x) (state ! x) n)"
  have "\<exists>s'. fromState n state h0 = Inr s' \<and> ?I n s'"
    unfolding fromState_def
    apply (rule for_upto_e_inv [where I = ?I])
    subgoal for i s
    proof -
      assume i: "i < n" and "?I i s"
      then obtain cs h1 where s: "s = (cs, h1)" "length cs = i" "store_ok h1" "store_ext h0 h1"
          "\<forall>x < i. length (cs ! x) = n \<and> row_built h0 h1 (cs ! x) (state ! x) n" by (cases s) auto
      have r: "js_row state (int i) = Some (state ! i)" using i assms(2) by simp
      obtain row h2 where row: "for_upto_e n (\<lambda>(row, h) y.
                (case js_get (state ! i) (int y) of
                   None \<Rightarrow> Inr (row @ [None], h)
                 | Some tile \<Rightarrow>
                     (let (r, h') = new_Tile (tile_position tile) (state_logValue tile) h
                      in Inr (row @ [Some r], h')))) ([], h1) = Inr (row, h2)"
          "length row = n" "store_ok h2" "store_ext h1 h2" "row_built h1 h2 row (state ! i) n"
        using fromState_row [OF s(3), of n "state ! i"] by blast
      have old: "\<forall>x < i. row_built h0 h2 (cs ! x) (state ! x) n"
        using s(5) row_built_ext [OF _ s(3) row(4)] by blast
      have new: "row_built h0 h2 row (state ! i) n"
        using row_built_mono [OF row(5)] s(4) by (simp add: store_ext_def)
      have "?I (Suc i) (cs @ [row], h2)"
        using s(2,4,5) old new row(2,3,4) store_ext_trans [OF s(4) row(4)]
        by (auto simp add: nth_append less_Suc_eq)
      then show ?thesis using row(1) s(1) by (simp add: r)
    qed
    using assms(1) by simp
  then show ?thesis by auto
qed

lemma built_cell:
  assumes "length (cells g2) = n" "\<forall>x < n. length (cells g2 ! x) = n \<and> row_built h0 h2 (cells g2 ! x) (state ! x) n"
    and "cell g2 x y = Some r"
  shows "x < n \<and> y < n \<and> next_ref h0 \<le> r \<and> r \<in> dom (objs h2) \<and>
         Some (the (objs h2 r)) = map_option state_tile (js_get (state ! x) (int y))"
proof -
  have x: "x < n" using assms(1,3) cell_out [of g2 x y] by (cases "x < n") auto
  then have c: "js_get (cells g2 ! x) (int y) = Some r" using assms(1,3) by simp
  then have y: "y < n" using assms(2) x js_get_out [of "cells g2 ! x" y] by (cases "y < n") auto
  have "row_built h0 h2 (cells g2 ! x) (state ! x) n" using assms(2) x by blast
  then have m: "map_option (\<lambda>r. the (objs h2 r)) (cells g2 ! x ! y) = map_option state_tile (js_get (state ! x) (int y))"
      and "\<forall>r. cells g2 ! x ! y = Some r \<longrightarrow> next_ref h0 \<le> r \<and> r \<in> dom (objs h2)"
    using y unfolding row_built_def by blast+
  moreover have "cells g2 ! x ! y = Some r" using c x y assms(2) by simp
  ultimately show ?thesis using x y by simp
qed

lemma serialized_nth:
  "x < grid_size g \<Longrightarrow> map_option state_tile (js_get (serialized_cells h g ! x) (int y)) =
     (if y < grid_size g then map_option (\<lambda>r. the (objs h r)) (cell g x y) else None)"
  by (simp add: serialized_cells_def js_get_out option.map_comp comp_def)

lemma serialized_len: "grid_size g \<le> length (serialized_cells h g)"
  by (simp add: serialized_cells_def)

lemma serialized_cell:
  assumes "length cs = grid_size g" "\<forall>x < grid_size g. length (cs ! x) = grid_size g \<and>
             row_built h' h2 (cs ! x) (serialized_cells h g ! x) (grid_size g)"
    and "cell (g\<lparr>cells := cs\<rparr>) x y = Some r"
  shows "next_ref h' \<le> r \<and> r \<in> dom (objs h2) \<and>
         Some (the (objs h2 r)) = map_option (\<lambda>r. the (objs h r)) (cell g x y)"
proof -
  have b: "x < grid_size g \<and> y < grid_size g \<and> next_ref h' \<le> r \<and> r \<in> dom (objs h2) \<and>
       Some (the (objs h2 r)) = map_option state_tile (js_get (serialized_cells h g ! x) (int y))"
    by (rule built_cell [of "g\<lparr>cells := cs\<rparr>"]) (use assms in simp_all)
  then show ?thesis using serialized_nth [of x g h y] by simp
qed

lemma serialized_bind:
  assumes "refs_ok h g" "length cs = grid_size g" "\<forall>x < grid_size g. length (cs ! x) = grid_size g \<and>
             row_built h' h2 (cs ! x) (serialized_cells h g ! x) (grid_size g)"
    and "x < grid_size g" "y < grid_size g"
  shows "Option.bind (cell (g\<lparr>cells := cs\<rparr>) x y) (objs h2) = Option.bind (cell g x y) (objs h)"
proof -
  have "Option.bind (cell (g\<lparr>cells := cs\<rparr>) x y) (objs h2) =
        map_option (\<lambda>r. the (objs h2 r)) (cell (g\<lparr>cells := cs\<rparr>) x y)"
    using serialized_cell [OF assms(2,3)] by (intro bind_dom) blast
  also have "\<dots> = map_option (\<lambda>r. the (objs h r)) (cell g x y)"
  proof -
    have rb: "row_built h' h2 (cs ! x) (serialized_cells h g ! x) (grid_size g)" using assms(3,4) by blast
    then have "map_option (\<lambda>r. the (objs h2 r)) (cs ! x ! y) =
                 map_option state_tile (js_get (serialized_cells h g ! x) (int y))"
      using assms(5) unfolding row_built_def by blast
    moreover have "cell (g\<lparr>cells := cs\<rparr>) x y = cs ! x ! y" using assms(2-5) by simp
    ultimately show ?thesis using assms(4,5) serialized_nth [of x g h y] by simp
  qed
  also have "\<dots> = Option.bind (cell g x y) (objs h)"
    using refs_ok_cell [OF assms(1)] by (intro bind_dom [symmetric]) blast
  finally show ?thesis .
qed

lemma row_built_serialize:
  assumes "row_built h0 h row srow n" "y < n" "y < length srow"
  shows "map_option (\<lambda>r. tile_serialize (the (objs h r))) (row ! y) = srow ! y"
proof -
  have "map_option (\<lambda>r. the (objs h r)) (row ! y) = map_option state_tile (srow ! y)"
    using assms unfolding row_built_def by simp
  then have "map_option tile_serialize (map_option (\<lambda>r. the (objs h r)) (row ! y)) =
             map_option tile_serialize (map_option state_tile (srow ! y))" by (rule arg_cong)
  then show ?thesis by (simp add: option.map_comp comp_def option.map_ident id_def [symmetric] option.map_id)
qed

lemma square_rows:
  assumes "length state = n" "\<forall>row \<in> set state. length row = n"
    and "\<And>x y. x < n \<Longrightarrow> y < n \<Longrightarrow> f x y = state ! x ! y"
  shows "map (\<lambda>x. map (\<lambda>y. f x y) [0..<n]) [0..<n] = state"
proof (rule nth_equalityI)
  show "length (map (\<lambda>x. map (\<lambda>y. f x y) [0..<n]) [0..<n]) = length state" using assms(1) by simp
  fix x assume "x < length (map (\<lambda>x. map (\<lambda>y. f x y) [0..<n]) [0..<n])"
  then have x: "x < n" by simp
  have "length (state ! x) = n" using assms(1,2) x by simp
  then have "map (\<lambda>y. f x y) [0..<n] = state ! x"
    using x assms(3) by (intro nth_equalityI) simp_all
  then show "map (\<lambda>x. map (\<lambda>y. f x y) [0..<n]) [0..<n] ! x = state ! x" using x by simp
qed

text \<open>C5: Serializing a grid that satisfies the grid invariant and rebuilding it with \<open>new Grid(size, cells)\<close> in any well-formed store gives a grid of the same size with the same board that again satisfies the invariant; every tile of the rebuilt grid is a fresh object, so none is shared with the store the reconstruction started from.\<close>

theorem serialize_roundtrip:
  assumes "grid_inv h g" "store_ok h'"
  shows "\<exists>s g2 h2. serialize h g = Inr s \<and>
           Grid (snap_size s) (Some (snap_cells s)) h' = Inr (g2, h2) \<and>
           grid_size g2 = grid_size g \<and> board h2 g2 = board h g \<and> grid_inv h2 g2 \<and>
           store_ext h' h2 \<and> grid_refs g2 \<inter> dom (objs h') = {}"
proof -
  let ?n = "grid_size g"
  have wf: "wf_grid g" and ro: "refs_ok h g" and pi: "pos_inv h g"
    using assms(1) by (simp_all add: grid_inv_def)
  have ser: "serialize h g = Inr \<lparr>snap_size = ?n, snap_cells = serialized_cells h g\<rparr>"
    using serialize_Inr [OF wf ro] by (simp add: serialized_cells_def)
  obtain cs h2 where fs: "fromState ?n (serialized_cells h g) h' = Inr (cs, h2)" "length cs = ?n"
      "store_ok h2" "store_ext h' h2"
      "\<forall>x < ?n. length (cs ! x) = ?n \<and> row_built h' h2 (cs ! x) (serialized_cells h g ! x) ?n"
    using fromState_Inr [OF assms(2) serialized_len] by blast
  define g2 where "g2 = \<lparr>grid_size = ?n, cells = cs, highestTileLogValue = Some 0, playerTurn = None\<rparr>"
  have G: "Grid ?n (Some (serialized_cells h g)) h' = Inr (g2, h2)"
    using fs(1) by (simp add: Grid_def g2_def)
  have cg: "\<And>x y. cell g2 x y = cell (g\<lparr>cells := cs\<rparr>) x y" by (simp add: cell_def g2_def)
  have gs: "grid_size g2 = ?n" by (simp add: g2_def)
  note sc = serialized_cell [OF fs(2,5), unfolded cg [symmetric]]
  have board: "board h2 g2 = board h g"
  proof (rule ext, clarify)
    fix x y
    show "board h2 g2 (x, y) = board h g (x, y)"
      using serialized_bind [OF ro fs(2,5), of x y] by (auto simp add: board_def cg gs)
  qed
  have r2: "refs_ok h2 g2" unfolding refs_ok_cell_iff using sc by blast
  have "\<And>x y r. cell g2 x y = Some r \<Longrightarrow> \<exists>r0. cell g x y = Some r0 \<and> objs h2 r = objs h r0"
  proof -
    fix x y r assume c: "cell g2 x y = Some r"
    then obtain r0 where r0: "cell g x y = Some r0" "Some (the (objs h2 r)) = Some (the (objs h r0))"
      using sc by fastforce
    have "r \<in> dom (objs h2)" "r0 \<in> dom (objs h)" using sc [OF c] refs_ok_cell [OF ro r0(1)] by auto
    then show "\<exists>r0. cell g x y = Some r0 \<and> objs h2 r = objs h r0" using r0 by auto
  qed
  then have p2: "pos_inv h2 g2" by (rule pos_inv_transfer [OF pi])
  have inv: "grid_inv h2 g2" using r2 p2 fs(2) by (simp add: grid_inv_def wf_grid_def g2_def)
  have fresh: "grid_refs g2 \<inter> dom (objs h') = {}"
  proof -
    have "\<And>r. r \<in> grid_refs g2 \<Longrightarrow> r \<notin> dom (objs h')"
      using sc grid_refs_cell assms(2) by (fastforce simp add: store_ok_def)
    then show ?thesis by blast
  qed
  show ?thesis using ser G board inv fs(4) fresh by (auto simp add: g2_def)
qed

text \<open>C6: The other round trip: building a grid from a square
  snapshot (\<open>size\<close> rows of \<open>size\<close> entries) and serializing it gives back exactly
  that snapshot.\<close>

theorem fromState_serialize:
  assumes "store_ok h" "length state = n" "\<forall>row \<in> set state. length row = n"
  shows "\<exists>g h'. Grid n (Some state) h = Inr (g, h') \<and>
           serialize h' g = Inr \<lparr>snap_size = n, snap_cells = state\<rparr>"
proof -
  have len: "n \<le> length state" using assms(2) by simp
  obtain cs h2 where fs: "fromState n state h = Inr (cs, h2)" "length cs = n"
      "\<forall>x < n. length (cs ! x) = n \<and> row_built h h2 (cs ! x) (state ! x) n"
    using fromState_Inr [OF assms(1) len] by blast
  define g2 where "g2 = \<lparr>grid_size = n, cells = cs, highestTileLogValue = Some 0, playerTurn = None\<rparr>"
  have G: "Grid n (Some state) h = Inr (g2, h2)" using fs(1) by (simp add: Grid_def g2_def)
  have wf: "wf_grid g2" using fs(2) by (simp add: wf_grid_def g2_def)
  have gs: "grid_size g2 = n" "cells g2 = cs" by (simp_all add: g2_def)
  have ro: "refs_ok h2 g2" unfolding refs_ok_cell_iff
  proof (intro allI impI)
    fix x y r assume "cell g2 x y = Some r"
    then show "r \<in> dom (objs h2)" using built_cell [of g2 n h h2 state x y r] fs(2,3) gs by simp
  qed
  have e: "\<And>x y. x < n \<Longrightarrow> y < n \<Longrightarrow>
            map_option (\<lambda>r. tile_serialize (the (objs h2 r))) (cell g2 x y) = state ! x ! y"
  proof -
    fix x y assume xy: "x < n" "y < n"
    have rb: "row_built h h2 (cs ! x) (state ! x) n" and l: "length (cs ! x) = n" using fs(3) xy(1) by blast+
    have "cell g2 x y = cs ! x ! y" using xy l fs(2) gs by simp
    moreover have "y < length (state ! x)" using assms(2,3) xy by simp
    ultimately show "map_option (\<lambda>r. tile_serialize (the (objs h2 r))) (cell g2 x y) = state ! x ! y"
      using row_built_serialize [OF rb xy(2)] by simp
  qed
  have "serialize h2 g2 = Inr \<lparr>snap_size = n, snap_cells = state\<rparr>"
    using serialize_Inr [OF wf ro] square_rows [OF assms(2,3) e] gs by simp
  then show ?thesis using G by blast
qed

text \<open>C25: On a well-formed grid whose references are all objects,
  \<open>serialize\<close> never throws and returns \<open>{size, cells}\<close> where \<open>cells\<close> is a
  \<open>size\<close> by \<open>size\<close> array.\<close>

theorem serialize_shape:
  assumes "wf_grid g" "refs_ok h g"
  shows "\<exists>s. serialize h g = Inr s \<and> snap_size s = grid_size g \<and> length (snap_cells s) = grid_size g \<and>
           (\<forall>row \<in> set (snap_cells s). length row = grid_size g)"
  using serialize_Inr [OF assms] by auto

text \<open>C26: Constructing a grid from a snapshot with fewer rows than
  \<open>size\<close> throws a TypeError: \<open>fromState\<close> reads \<open>state[x][y]\<close> of a missing row.\<close>

theorem Grid_short_state:
  assumes "length state < n"
  shows "\<exists>e. Grid n (Some state) h = Inl e"
proof -
  have r: "js_row state (int (length state)) = None" by (simp add: js_row_def)
  have u: "[0..<n] = 0 # [1..<n]" using assms by (simp add: upt_rec)
  have "\<exists>e. fromState n state h = Inl e"
    unfolding fromState_def for_upto_e_def
  proof (rule for_each_e_Inl)
    show "length state \<in> set [0..<n]" using assms by simp
    fix s
    show "\<exists>e. (\<lambda>(cells, h) x.
       js_bind
         (for_each_e [0..<n] (\<lambda>(row, h) y.
            case js_row state (int x) of
              None \<Rightarrow> Inl TypeError
            | Some srow \<Rightarrow>
                (case js_get srow (int y) of
                   None \<Rightarrow> Inr (row @ [None], h)
                 | Some tile \<Rightarrow>
                     (let (r, h') = new_Tile (tile_position tile) (state_logValue tile) h
                      in Inr (row @ [Some r], h'))))
           ([], h))
         (\<lambda>(row, h). Inr (cells @ [row], h))) s (length state) = Inl e"
      using r u by (cases s) simp
  qed
  then show ?thesis by (auto simp add: Grid_def)
qed

subsection \<open>Cloning\<close>

lemma clone_loop:
  "clone h g =
     js_bind (Grid (grid_size g) None h) (\<lambda>(newGrid, h1).
       for_each_e (coords (grid_size g)) (\<lambda>(newGrid, h) (x, y).
           js_bind (js_read2 (cells g) (int x) (int y)) (\<lambda>c.
             case c of
               None \<Rightarrow> Inr (newGrid, h)
             | Some r \<Rightarrow> js_bind (tile_clone h r) (\<lambda>(r', h').
                 js_bind (insertTile h' r' newGrid) (\<lambda>newGrid'. Inr (newGrid', h')))))
         (newGrid\<lparr>playerTurn := playerTurn g\<rparr>, h1))"
  unfolding clone_def for_upto_e_nested [symmetric] by (simp add: case_prod_unfold)

lemma clone_step:
  assumes inv: "grid_inv h g" and ok: "store_ok h" and p: "clone_prefix h g ys ng h'"
    and xy: "x < grid_size g" "y < grid_size g"
  shows "\<exists>ng' h''. js_bind (js_read2 (cells g) (int x) (int y)) (\<lambda>c.
             case c of
               None \<Rightarrow> Inr (ng, h')
             | Some r \<Rightarrow> js_bind (tile_clone h' r) (\<lambda>(r', h').
                 js_bind (insertTile h' r' ng) (\<lambda>newGrid'. Inr (newGrid', h')))) = Inr (ng', h'') \<and>
           clone_prefix h g (ys @ [(x, y)]) ng' h''"
proof -
  have wf: "wf_grid g" and ro: "refs_ok h g" and pi: "pos_inv h g" using inv by (simp_all add: grid_inv_def)
  have rd: "js_read2 (cells g) (int x) (int y) = Inr (cell g x y)" using wf xy(1) by simp
  show ?thesis
  proof (cases "cell g x y")
    case None
    then show ?thesis using p rd by (auto simp add: clone_prefix_def)
  next
    case (Some r0)
    obtain t where t: "objs h r0 = Some t" using refs_ok_cell [OF ro Some] by blast
    have pos: "tx t = int x" "ty t = int y" using pi Some t unfolding pos_inv_cell by blast+
    have okh': "store_ok h'" and ext: "store_ext h h'" using p by (simp_all add: clone_prefix_def)
    have t': "objs h' r0 = Some t" using store_ext_objs [OF ok ext] t by (simp add: domIff)
    let ?r' = "next_ref h'"
    let ?h'' = "h'\<lparr>objs := (objs h')(?r' \<mapsto> t), next_ref := Suc ?r'\<rparr>"
    have tc: "tile_clone h' r0 = Inr (?r', ?h'')" by (rule tile_clone_eq [OF t'])
    have lx: "x < length (cells ng)" using p xy by (simp add: clone_prefix_def)
    let ?ng' = "ng\<lparr>cells := (cells ng)[nat (int x) := js_set (cells ng ! nat (int x)) (int y) (Some ?r')]\<rparr>"
    have it: "insertTile ?h'' ?r' ng = Inr ?ng'" using lx pos by (simp add: insertTile_Inr)
    have step: "js_bind (js_read2 (cells g) (int x) (int y)) (\<lambda>c.
             case c of
               None \<Rightarrow> Inr (ng, h')
             | Some r \<Rightarrow> js_bind (tile_clone h' r) (\<lambda>(r', h').
                 js_bind (insertTile h' r' ng) (\<lambda>newGrid'. Inr (newGrid', h')))) = Inr (?ng', ?h'')"
      using rd Some tc it by simp
    have cw: "\<And>a b. cell ?ng' a b = (if a = x \<and> b = y then Some ?r' else cell ng a b)"
      using cell_write [of "int x" ng "int y" "Some ?r'"] lx by simp
    have ok'': "store_ok ?h''" and ext'': "store_ext h' ?h''"
      using okh' by (auto simp add: store_ok_def store_ext_def)
    have nr: "next_ref h \<le> ?r'" using ext by (simp add: store_ext_def)
    have old: "\<And>r. r \<in> dom (objs h') \<Longrightarrow> objs ?h'' r = objs h' r"
      using store_ext_objs [OF okh' ext''] by blast
    have f1: "grid_size ?ng' = grid_size g" "playerTurn ?ng' = playerTurn g" "highestTileLogValue ?ng' = Some 0"
           "length (cells ?ng') = grid_size g"
      using p by (simp_all add: clone_prefix_def)
    have f2: "\<forall>a < grid_size g. length (cells ?ng' ! a) = grid_size g"
      using p xy by (auto simp add: clone_prefix_def nth_list_update length_js_set)
    have f3: "store_ext h ?h''" using store_ext_trans [OF ext ext''] .
    have f4: "\<forall>a b r. cell ?ng' a b = Some r \<longrightarrow>
        (a, b) \<in> set (ys @ [(x, y)]) \<and> next_ref h \<le> r \<and> (\<exists>r0. cell g a b = Some r0 \<and> objs ?h'' r = objs h r0)"
    proof (intro allI impI)
      fix a b r assume c: "cell ?ng' a b = Some r"
      show "(a, b) \<in> set (ys @ [(x, y)]) \<and> next_ref h \<le> r \<and> (\<exists>r0. cell g a b = Some r0 \<and> objs ?h'' r = objs h r0)"
      proof (cases "a = x \<and> b = y")
        case True
        then show ?thesis using c cw Some t nr by auto
      next
        case False
        have "cell ?ng' a b = cell ng a b" using cw [of a b] False by simp
        then have c0: "cell ng a b = Some r" using c by simp
        then obtain r1 where r1: "(a, b) \<in> set ys" "next_ref h \<le> r" "cell g a b = Some r1" "objs h' r = objs h r1"
          using p unfolding clone_prefix_def by blast
        have "r \<in> dom (objs h')" using r1(3,4) refs_ok_cell [OF ro r1(3)] by auto
        then show ?thesis using r1 old by auto
      qed
    qed
    have f5: "\<forall>a b. (a, b) \<in> set (ys @ [(x, y)]) \<longrightarrow> cell g a b \<noteq> None \<longrightarrow> cell ?ng' a b \<noteq> None"
      using p cw unfolding clone_prefix_def by auto
    have "clone_prefix h g (ys @ [(x, y)]) ?ng' ?h''"
      unfolding clone_prefix_def using f1 f2 f3 f4 f5 ok'' by blast
    then show ?thesis using step by blast
  qed
qed

lemma clone_spec:
  assumes inv: "grid_inv h g" and ok: "store_ok h"
  shows "\<exists>g2 h2. clone h g = Inr (g2, h2) \<and> clone_prefix h g (coords (grid_size g)) g2 h2"
proof -
  let ?n = "grid_size g"
  let ?ng0 = "\<lparr>grid_size = ?n, cells = replicate ?n (replicate ?n None), highestTileLogValue = Some 0,
              playerTurn = playerTurn g\<rparr>"
  have c0: "\<And>x y. cell ?ng0 x y = None"
    by (simp add: cell_def js_row_def js_get_def)
  have p0: "clone_prefix h g [] ?ng0 h" using ok by (simp add: clone_prefix_def c0)
  have "\<exists>s'. for_each_e (coords ?n) (\<lambda>(newGrid, h) (x, y).
           js_bind (js_read2 (cells g) (int x) (int y)) (\<lambda>c.
             case c of
               None \<Rightarrow> Inr (newGrid, h)
             | Some r \<Rightarrow> js_bind (tile_clone h r) (\<lambda>(r', h').
                 js_bind (insertTile h' r' newGrid) (\<lambda>newGrid'. Inr (newGrid', h')))))
         (?ng0, h) = Inr s' \<and> (\<lambda>ys (ng, h'). clone_prefix h g ys ng h') (coords ?n) s'"
  proof (rule for_each_e_inv [where I = "\<lambda>ys (ng, h'). clone_prefix h g ys ng h'"])
    fix ys xy zs s assume e: "coords ?n = ys @ xy # zs" and p: "(\<lambda>ys (ng, h'). clone_prefix h g ys ng h') ys s"
    have "xy \<in> set (coords ?n)" unfolding e by simp
    then have "xy \<in> {..<?n} \<times> {..<?n}" by (simp only: set_coords)
    then obtain x y where xy: "xy = (x, y)" "x < ?n" "y < ?n" by blast
    obtain ng h' where s: "s = (ng, h')" by (cases s)
    show "\<exists>s'. (\<lambda>(newGrid, h) (x, y).
           js_bind (js_read2 (cells g) (int x) (int y)) (\<lambda>c.
             case c of
               None \<Rightarrow> Inr (newGrid, h)
             | Some r \<Rightarrow> js_bind (tile_clone h r) (\<lambda>(r', h').
                 js_bind (insertTile h' r' newGrid) (\<lambda>newGrid'. Inr (newGrid', h'))))) s xy = Inr s' \<and>
           (\<lambda>ys (ng, h'). clone_prefix h g ys ng h') (ys @ [xy]) s'"
      using clone_step [OF inv ok _ xy(2,3), of ys ng h'] p s xy(1) by auto
  qed (simp add: p0)
  then show ?thesis
    unfolding clone_loop by (auto simp add: Grid_None)
qed

lemma clone_prefix_cell:
  assumes "clone_prefix h g ys g2 h2" "cell g2 x y = Some r"
  shows "next_ref h \<le> r \<and> (\<exists>r0. cell g x y = Some r0 \<and> objs h2 r = objs h r0)"
proof -
  have "\<forall>x y r. cell g2 x y = Some r \<longrightarrow>
        (x, y) \<in> set ys \<and> next_ref h \<le> r \<and> (\<exists>r0. cell g x y = Some r0 \<and> objs h2 r = objs h r0)"
    using assms(1) unfolding clone_prefix_def by (elim conjE)
  then show ?thesis using assms(2) by blast
qed

lemma clone_prefix_covered:
  assumes "clone_prefix h g ys g2 h2" "(x, y) \<in> set ys" "cell g2 x y = None"
  shows "cell g x y = None"
proof -
  have "\<forall>x y. (x, y) \<in> set ys \<longrightarrow> cell g x y \<noteq> None \<longrightarrow> cell g2 x y \<noteq> None"
    using assms(1) unfolding clone_prefix_def by (elim conjE)
  then show ?thesis using assms(2,3) by blast
qed

lemma clone_prefix_board:
  assumes ro: "refs_ok h g" and p: "clone_prefix h g (coords (grid_size g)) g2 h2"
  shows "board h2 g2 = board h g"
proof (rule ext, clarify)
  fix x y
  have gs: "grid_size g2 = grid_size g" using p unfolding clone_prefix_def by (elim conjE)
  show "board h2 g2 (x, y) = board h g (x, y)"
  proof (cases "x < grid_size g \<and> y < grid_size g")
    case True
    show ?thesis
    proof (cases "cell g2 x y")
      case None
      then have "cell g x y = None" using clone_prefix_covered [OF p] True by simp
      then show ?thesis using None by (simp add: board_def gs)
    next
      case (Some r)
      then obtain r0 where "cell g x y = Some r0" "objs h2 r = objs h r0"
        using clone_prefix_cell [OF p] by blast
      then show ?thesis using Some by (simp add: board_def gs)
    qed
  qed (auto simp add: board_def gs)
qed

lemma clone_prefix_inv:
  assumes inv: "grid_inv h g" and p: "clone_prefix h g ys g2 h2"
  shows "grid_inv h2 g2"
proof -
  have ro: "refs_ok h g" and pi: "pos_inv h g" using inv by (simp_all add: grid_inv_def)
  have c: "\<And>x y r. cell g2 x y = Some r \<Longrightarrow> \<exists>r0. cell g x y = Some r0 \<and> objs h2 r = objs h r0"
    using clone_prefix_cell [OF p] by blast
  have "refs_ok h2 g2" unfolding refs_ok_cell_iff
  proof (intro allI impI)
    fix x y r assume "cell g2 x y = Some r"
    then obtain r0 where r0: "cell g x y = Some r0" "objs h2 r = objs h r0" using c by blast
    then show "r \<in> dom (objs h2)" using refs_ok_cell [OF ro r0(1)] by (simp add: domIff)
  qed
  moreover have "pos_inv h2 g2" by (rule pos_inv_transfer [OF pi c])
  moreover have "wf_grid g2"
  proof -
    have "grid_size g2 = grid_size g" "length (cells g2) = grid_size g"
      using p by (simp_all add: clone_prefix_def)
    then show ?thesis by (simp add: wf_grid_def)
  qed
  ultimately show ?thesis by (simp add: grid_inv_def)
qed

lemma clone_prefix_fresh:
  assumes "store_ok h" "clone_prefix h g ys g2 h2"
  shows "grid_refs g2 \<inter> dom (objs h) = {}"
proof -
  have "\<And>r. r \<in> grid_refs g2 \<Longrightarrow> r \<notin> dom (objs h)"
  proof -
    fix r assume "r \<in> grid_refs g2"
    then obtain x y where "cell g2 x y = Some r" using grid_refs_cell by blast
    then have "next_ref h \<le> r" using clone_prefix_cell [OF assms(2)] by blast
    then show "r \<notin> dom (objs h)" using assms(1) by (simp add: store_ok_def domIff)
  qed
  then show ?thesis by blast
qed

lemma serialize_entry_board:
  assumes "refs_ok h g" "x < grid_size g" "y < grid_size g"
  shows "map_option (\<lambda>r. tile_serialize (the (objs h r))) (cell g x y) = map_option tile_serialize (board h g (x, y))"
proof (cases "cell g x y")
  case (Some r)
  then obtain t where "objs h r = Some t" using refs_ok_cell [OF assms(1)] by blast
  then show ?thesis using Some assms(2,3) by (simp add: board_def)
qed (simp add: board_def assms(2,3))

lemma serialize_board:
  assumes "wf_grid g" "refs_ok h g" "wf_grid g'" "refs_ok h' g'"
    and "grid_size g' = grid_size g" "board h' g' = board h g"
  shows "serialize h' g' = serialize h g"
proof -
  have "\<And>x y. x < grid_size g \<Longrightarrow> y < grid_size g \<Longrightarrow>
          map_option (\<lambda>r. tile_serialize (the (objs h' r))) (cell g' x y) =
          map_option (\<lambda>r. tile_serialize (the (objs h r))) (cell g x y)"
    using serialize_entry_board [OF assms(4)] serialize_entry_board [OF assms(2)] assms(5,6) by simp
  then show ?thesis
    using serialize_Inr [OF assms(1,2)] serialize_Inr [OF assms(3,4)] assms(5) by simp
qed

lemma clone_prefix_shape:
  assumes "clone_prefix h g ys g2 h2"
  shows "grid_size g2 = grid_size g \<and> playerTurn g2 = playerTurn g \<and> highestTileLogValue g2 = Some 0 \<and>
         store_ok h2 \<and> store_ext h h2"
  using assms by (simp add: clone_prefix_def)

text \<open>C7: Cloning a grid that satisfies the grid invariant succeeds and yields a grid of
  the same size with the same board (the same tiles, by value, at the same coordinates); the
  original's board is unchanged, \<open>playerTurn\<close> is copied and \<open>highestTileLogValue\<close>
  is reset to 0 by the constructor.\<close>

theorem clone_board:
  assumes "grid_inv h g" "store_ok h"
  shows "\<exists>g2 h2. clone h g = Inr (g2, h2) \<and> grid_size g2 = grid_size g \<and>
           board h2 g2 = board h g \<and> board h2 g = board h g \<and>
           playerTurn g2 = playerTurn g \<and> highestTileLogValue g2 = Some 0"
proof -
  obtain g2 h2 where c: "clone h g = Inr (g2, h2)" and p: "clone_prefix h g (coords (grid_size g)) g2 h2"
    using clone_spec [OF assms] by blast
  have ro: "refs_ok h g" using assms(1) by (simp add: grid_inv_def)
  note sh = clone_prefix_shape [OF p]
  have b1: "board h2 g2 = board h g" by (rule clone_prefix_board [OF ro p])
  have b2: "board h2 g = board h g" using sh board_store_ext [OF ro assms(2)] by blast
  show ?thesis using c sh b1 b2 by blast
qed

text \<open>C9: The clone satisfies the grid invariant in the store after cloning, and cloning
  only allocates: the store stays well-formed and every earlier object is unchanged.\<close>

theorem clone_inv:
  assumes "grid_inv h g" "store_ok h"
  shows "\<exists>g2 h2. clone h g = Inr (g2, h2) \<and> grid_inv h2 g2 \<and> store_ok h2 \<and> store_ext h h2"
proof -
  obtain g2 h2 where c: "clone h g = Inr (g2, h2)" and p: "clone_prefix h g (coords (grid_size g)) g2 h2"
    using clone_spec [OF assms] by blast
  then show ?thesis using clone_prefix_inv [OF assms(1) p] clone_prefix_shape [OF p] by blast
qed

text \<open>C8: The clone shares no tile object with the original, and writing any
  value into any tile object of the clone leaves the original's board unchanged.\<close>

theorem clone_independent:
  assumes "grid_inv h g" "store_ok h"
  shows "\<exists>g2 h2. clone h g = Inr (g2, h2) \<and> grid_refs g2 \<inter> grid_refs g = {} \<and>
           (\<forall>r \<in> grid_refs g2. \<forall>t. board (h2\<lparr>objs := (objs h2)(r \<mapsto> t)\<rparr>) g = board h g)"
proof -
  obtain g2 h2 where c: "clone h g = Inr (g2, h2)" and p: "clone_prefix h g (coords (grid_size g)) g2 h2"
    using clone_spec [OF assms] by blast
  have ro: "refs_ok h g" using assms(1) by (simp add: grid_inv_def)
  have fresh: "grid_refs g2 \<inter> dom (objs h) = {}" by (rule clone_prefix_fresh [OF assms(2) p])
  have "grid_refs g \<subseteq> dom (objs h)" using ro by (simp add: refs_ok_def)
  then have disj: "grid_refs g2 \<inter> grid_refs g = {}" using fresh by blast
  have ext: "store_ext h h2" using clone_prefix_shape [OF p] by simp
  have "\<And>r t. r \<in> grid_refs g2 \<Longrightarrow> board (h2\<lparr>objs := (objs h2)(r \<mapsto> t)\<rparr>) g = board h g"
  proof -
    fix r t assume r: "r \<in> grid_refs g2"
    then obtain x y where "cell g2 x y = Some r" using grid_refs_cell by blast
    then have "next_ref h \<le> r" using clone_prefix_cell [OF p] by blast
    then have "store_ext h (h2\<lparr>objs := (objs h2)(r \<mapsto> t)\<rparr>)" using ext by (simp add: store_ext_def)
    then show "board (h2\<lparr>objs := (objs h2)(r \<mapsto> t)\<rparr>) g = board h g"
      by (rule board_store_ext [OF ro assms(2)])
  qed
  then show ?thesis using c disj by blast
qed

text \<open>C16: A clone serializes to the same snapshot as its original, so a
  look-ahead copy saved with \<open>serialize\<close> is indistinguishable from the live board.\<close>

theorem clone_serialize:
  assumes "grid_inv h g" "store_ok h"
  shows "\<exists>g2 h2. clone h g = Inr (g2, h2) \<and> serialize h2 g2 = serialize h g"
proof -
  obtain g2 h2 where c: "clone h g = Inr (g2, h2)" and p: "clone_prefix h g (coords (grid_size g)) g2 h2"
    using clone_spec [OF assms] by blast
  have wf: "wf_grid g" and ro: "refs_ok h g" using assms(1) by (simp_all add: grid_inv_def)
  have i2: "grid_inv h2 g2" by (rule clone_prefix_inv [OF assms(1) p])
  have "serialize h2 g2 = serialize h g"
    using serialize_board [OF wf ro, of g2 h2] i2 clone_prefix_shape [OF p] clone_prefix_board [OF ro p]
    by (simp add: grid_inv_def)
  then show ?thesis using c by blast
qed

end
