(* ===== verification/Grid_Game.thy ===== *)
theory Grid_Game
  imports Grid_Cells "HOL-Library.While_Combinator"
begin

text \<open>
  The grid as the game driver uses it.  The driver is not part of the sources: per
  spec.md (sections 3 and 8) it mutates the grid only through \<open>insertTile\<close> and
  \<open>removeTile\<close>, and it must check \<open>cellsAvailable()\<close> before it asks for
  \<open>randomAvailableCell()\<close>.  \<open>addRandomTile\<close> is that composition: check, draw a free
  cell, build a \<open>new Tile\<close> there and insert it.  The driver chooses the tile value (the
  game uses \<open>getGeneratedTileValue\<close>).  \<open>game_step\<close> is the step relation of the
  driver: add a random tile, or remove a tile that is on the grid.  \<open>reachable n\<close> is the
  set of states reachable from a new empty grid of size \<open>n\<close>.  \<open>fill_board\<close> is
  the loop \<open>while (cellsAvailable()) addRandomTile()\<close>, with \<open>while_option\<close>, and
  with the \<open>k\<close>-th draw of \<open>Math.random()\<close> given by \<open>draw k\<close>.
  \<open>free_cells\<close> (the coordinates of the empty cells) is the loop's measure, and
  \<open>fill_inv\<close> is its invariant.
\<close>


definition addRandomTile :: "int \<Rightarrow> real \<Rightarrow> store \<Rightarrow> grid \<Rightarrow> (grid \<times> store) js_result" where
  "addRandomTile tileValue random h g =
     js_bind (cellsAvailable g) (\<lambda>available.
       if available then
         js_bind (randomAvailableCell g random) (\<lambda>cell.
           case cell of
             None \<Rightarrow> Inl TypeError
           | Some c \<Rightarrow>
               (let (tile, h') = new_Tile c tileValue h
                in js_bind (insertTile h' tile g) (\<lambda>g'. Inr (g', h'))))
       else Inr (g, h))"

inductive game_step :: "grid \<times> store \<Rightarrow> grid \<times> store \<Rightarrow> bool" where
  add: "0 \<le> random \<Longrightarrow> random < 1 \<Longrightarrow> addRandomTile tileValue random h g = Inr (g', h') \<Longrightarrow>
        game_step (g, h) (g', h')"
| remove: "r \<in> grid_refs g \<Longrightarrow> removeTile h r g = Inr g' \<Longrightarrow> game_step (g, h) (g', h)"

inductive reachable :: "nat \<Rightarrow> grid \<times> store \<Rightarrow> bool" for n where
  start: "store_ok h \<Longrightarrow> Grid n None h = Inr (g, h') \<Longrightarrow> reachable n (g, h')"
| step: "reachable n s \<Longrightarrow> game_step s s' \<Longrightarrow> reachable n s'"

definition free_cells :: "grid \<Rightarrow> (nat \<times> nat) set" where
  "free_cells g = {(x, y). x < grid_size g \<and> y < grid_size g \<and> cell g x y = None}"

definition fill_board :: "int \<Rightarrow> (nat \<Rightarrow> real) \<Rightarrow> grid \<Rightarrow> store \<Rightarrow> (nat \<times> grid \<times> store) js_result option" where
  "fill_board tileValue draw g h =
     while_option
       (\<lambda>s. case s of Inr (k, g, h) \<Rightarrow> cellsAvailable g = Inr True | Inl e \<Rightarrow> False)
       (\<lambda>s. js_bind s (\<lambda>(k, g, h). js_bind (addRandomTile tileValue (draw k) h g) (\<lambda>(g', h'). Inr (Suc k, g', h'))))
       (Inr (0, g, h))"

definition fill_inv :: "grid \<Rightarrow> store \<Rightarrow> (nat \<times> grid \<times> store) js_result \<Rightarrow> bool" where
  "fill_inv g h s \<longleftrightarrow>
     (\<exists>k g' h'. s = Inr (k, g', h') \<and> grid_inv h' g' \<and> store_ok h' \<and> store_ext h h' \<and>
        grid_size g' = grid_size g \<and> free_cells g' \<subseteq> free_cells g \<and>
        k + card (free_cells g') = card (free_cells g) \<and>
        (\<forall>p \<in> dom (board h g). board h' g' p = board h g p))"

text \<open>The second half of the loop invariant: every cell the loop has filled so far holds a
  tile of the driver's value at that cell.\<close>

definition fill_new :: "int \<Rightarrow> grid \<Rightarrow> (nat \<times> grid \<times> store) js_result \<Rightarrow> bool" where
  "fill_new tileValue g s \<longleftrightarrow>
     (case s of
        Inr (k, g', h') \<Rightarrow> \<forall>p \<in> free_cells g - free_cells g'.
           board h' g' p = Some \<lparr>tx = int (fst p), ty = int (snd p), logValue = tileValue\<rparr>
      | Inl e \<Rightarrow> True)"

lemma finite_free_cells [simp]: "finite (free_cells g)"
proof -
  have "free_cells g \<subseteq> {..<grid_size g} \<times> {..<grid_size g}" by (auto simp add: free_cells_def)
  then show ?thesis by (rule finite_subset) simp
qed

lemma availableCells_free:
  "wf_grid g \<Longrightarrow> availableCells g =
     Inr (map (\<lambda>(x, y). \<lparr>px = int x, py = int y\<rparr>) (filter (\<lambda>(x, y). cell g x y = None) (coords (grid_size g))))"
  by (simp add: availableCells_wf comprehension_map_filter)

lemma set_free_filter:
  "set (filter (\<lambda>(x, y). cell g x y = None) (coords (grid_size g))) = free_cells g"
  by (auto simp add: free_cells_def)

lemma cellsAvailable_free: "wf_grid g \<Longrightarrow> cellsAvailable g = Inr (free_cells g \<noteq> {})"
  by (simp add: cellsAvailable_def availableCells_free set_free_filter [symmetric] filter_empty_conv)
     (auto simp add: free_cells_def)

lemma grid_inv_store_ext:
  "grid_inv h g \<Longrightarrow> store_ok h \<Longrightarrow> store_ext h h' \<Longrightarrow> grid_inv h' g"
  unfolding grid_inv_def refs_ok_cell_iff pos_inv_cell
  by (metis domIff store_ext_objs)

lemma addRandomTile_full:
  "wf_grid g \<Longrightarrow> free_cells g = {} \<Longrightarrow> addRandomTile tileValue random h g = Inr (g, h)"
  by (simp add: addRandomTile_def cellsAvailable_free)

lemma free_cells_write:
  assumes "wf_grid g" "x < grid_size g"
  shows "free_cells (g\<lparr>cells := (cells g)[x := js_set (cells g ! x) (int y) (Some r)]\<rparr>) = free_cells g - {(x, y)}"
proof -
  have "\<And>a b. cell (g\<lparr>cells := (cells g)[x := js_set (cells g ! x) (int y) (Some r)]\<rparr>) a b =
               (if a = x \<and> b = y then Some r else cell g a b)"
    using cell_write [of "int x" g "int y" "Some r"] assms by (simp add: wf_grid_def)
  then show ?thesis by (auto simp add: free_cells_def)
qed

lemma addRandomTile_step:
  assumes inv: "grid_inv h g" and ok: "store_ok h" and ne: "free_cells g \<noteq> {}"
    and rnd: "0 \<le> random" "random < 1"
  shows "\<exists>x y g' h'. addRandomTile tileValue random h g = Inr (g', h') \<and> (x, y) \<in> free_cells g \<and>
           free_cells g' = free_cells g - {(x, y)} \<and> grid_inv h' g' \<and> store_ok h' \<and> store_ext h h' \<and>
           grid_size g' = grid_size g \<and> highestTileLogValue g' = highestTileLogValue g \<and>
           board h' g' = (board h g)((x, y) \<mapsto> \<lparr>tx = int x, ty = int y, logValue = tileValue\<rparr>)"
proof -
  have wf: "wf_grid g" and ro: "refs_ok h g" using inv by (simp_all add: grid_inv_def)
  let ?fs = "filter (\<lambda>(x, y). cell g x y = None) (coords (grid_size g))"
  let ?cs = "map (\<lambda>(x, y). \<lparr>px = int x, py = int y\<rparr>) ?fs"
  have av: "availableCells g = Inr ?cs" by (rule availableCells_free [OF wf])
  have "set ?fs \<noteq> {}" unfolding set_free_filter by (rule ne)
  then have csne: "?cs \<noteq> []" by (metis Nil_is_map_conv set_empty)
  let ?i = "nat \<lfloor>random * real (length ?cs)\<rfloor>"
  note rc = randomAvailableCell_nth [OF av csne rnd]
  obtain x y where xy: "?fs ! ?i = (x, y)" by (cases "?fs ! ?i")
  have "(x, y) \<in> set ?fs" using rc(2) xy by (metis length_map nth_mem)
  then have fr: "(x, y) \<in> free_cells g" by (simp only: set_free_filter)
  then have xn: "x < grid_size g" "y < grid_size g" by (simp_all add: free_cells_def)
  have c: "?cs ! ?i = \<lparr>px = int x, py = int y\<rparr>" using rc(2) xy by simp
  let ?t = "\<lparr>tx = int x, ty = int y, logValue = tileValue\<rparr>"
  let ?h' = "h\<lparr>objs := (objs h)(next_ref h \<mapsto> ?t), next_ref := Suc (next_ref h)\<rparr>"
  have nt: "new_Tile \<lparr>px = int x, py = int y\<rparr> tileValue h = (next_ref h, ?h')"
    by (simp add: new_Tile_def alloc_def)
  note fresh = new_Tile_fresh [OF ok nt]
  let ?g' = "g\<lparr>cells := (cells g)[x := js_set (cells g ! x) (int y) (Some (next_ref h))]\<rparr>"
  have it: "insertTile ?h' (next_ref h) g = Inr ?g'" using wf xn by (simp add: insertTile_Inr wf_grid_def)
  have ar: "addRandomTile tileValue random h g = Inr (?g', ?h')"
    using ne rc(1) c nt it by (simp add: addRandomTile_def cellsAvailable_free [OF wf])
  have inv1: "grid_inv ?h' g" by (rule grid_inv_store_ext [OF inv ok fresh(2)])
  have inv2: "grid_inv ?h' ?g'"
    using insertTile_invs [OF it] inv1 by (simp add: grid_inv_def)
  have "board ?h' ?g' = (board ?h' g)((x, y) := Option.bind (Some (next_ref h)) (objs ?h'))"
    using board_write [of g "int x" ?h' "int y" "Some (next_ref h)"] wf xn by (simp add: wf_grid_def)
  then have bd: "board ?h' ?g' = (board h g)((x, y) \<mapsto> ?t)"
    using board_store_ext [OF ro ok fresh(2)] by simp
  show ?thesis
    using ar fr free_cells_write [OF wf xn(1)] inv2 fresh(1,2) bd by fastforce
qed

lemma addRandomTile_inv:
  assumes "grid_inv h g" "store_ok h" "0 \<le> random" "random < 1"
    and "addRandomTile tileValue random h g = Inr (g', h')"
  shows "grid_inv h' g' \<and> store_ok h' \<and> store_ext h h' \<and> grid_size g' = grid_size g \<and>
         highestTileLogValue g' = highestTileLogValue g"
proof (cases "free_cells g = {}")
  case True
  have "wf_grid g" using assms(1) by (simp add: grid_inv_def)
  then show ?thesis using assms addRandomTile_full [OF _ True] by auto
next
  case False
  then show ?thesis using addRandomTile_step [OF assms(1,2) False assms(3,4), of tileValue] assms(5) by auto
qed

lemma removeTile_shape:
  "removeTile h r g = Inr g' \<Longrightarrow> grid_size g' = grid_size g \<and> highestTileLogValue g' = highestTileLogValue g"
  by (auto simp add: removeTile_Inr)

lemma fill_steps:
  assumes "grid_inv h g" "store_ok h"
  shows "\<exists>g' h'. game_step\<^sup>*\<^sup>* (g, h) (g', h') \<and> free_cells g' = {} \<and> grid_inv h' g' \<and> store_ok h'"
  using assms
proof (induction "card (free_cells g)" arbitrary: g h)
  case 0
  then show ?case by auto
next
  case (Suc m)
  then have ne: "free_cells g \<noteq> {}" by auto
  obtain x y g1 h1 where s: "addRandomTile 1 0 h g = Inr (g1, h1)" "(x, y) \<in> free_cells g"
      "free_cells g1 = free_cells g - {(x, y)}" "grid_inv h1 g1" "store_ok h1"
    using addRandomTile_step [OF Suc.prems ne, of 0 1] by auto
  have st: "game_step (g, h) (g1, h1)" by (rule game_step.add [OF _ _ s(1)]) simp_all
  have "m = card (free_cells g1)" using Suc.hyps(2) s(2,3) by simp
  then obtain g' h' where "game_step\<^sup>*\<^sup>* (g1, h1) (g', h')" "free_cells g' = {}" "grid_inv h' g'" "store_ok h'"
    using Suc.hyps(1) s(4,5) by blast
  then show ?case using st by (meson converse_rtranclp_into_rtranclp)
qed

lemma fill_step:
  assumes "fill_inv g h s" "case s of Inr (k, g, h) \<Rightarrow> cellsAvailable g = Inr True | Inl e \<Rightarrow> False"
    and draw: "\<forall>k. 0 \<le> draw k \<and> draw k < 1"
  shows "fill_inv g h (js_bind s (\<lambda>(k, g, h). js_bind (addRandomTile tileValue (draw k) h g)
                                   (\<lambda>(g', h'). Inr (Suc k, g', h')))) \<and>
         (case js_bind s (\<lambda>(k, g, h). js_bind (addRandomTile tileValue (draw k) h g)
                                   (\<lambda>(g', h'). Inr (Suc k, g', h'))) of
            Inr (k, g', h') \<Rightarrow> card (free_cells g') | Inl e \<Rightarrow> 0) <
         (case s of Inr (k, g', h') \<Rightarrow> card (free_cells g') | Inl e \<Rightarrow> 0)"
proof -
  obtain k g1 h1 where s: "s = Inr (k, g1, h1)" and i: "grid_inv h1 g1" "store_ok h1" "store_ext h h1"
      "grid_size g1 = grid_size g" "free_cells g1 \<subseteq> free_cells g"
      "k + card (free_cells g1) = card (free_cells g)"
      "\<forall>p \<in> dom (board h g). board h1 g1 p = board h g p"
    using assms(1) unfolding fill_inv_def by blast
  have wf: "wf_grid g1" using i(1) by (simp add: grid_inv_def)
  have ne: "free_cells g1 \<noteq> {}" using assms(2) s cellsAvailable_free [OF wf] by simp
  obtain x y g2 h2 where a: "addRandomTile tileValue (draw k) h1 g1 = Inr (g2, h2)" "(x, y) \<in> free_cells g1"
      "free_cells g2 = free_cells g1 - {(x, y)}" "grid_inv h2 g2" "store_ok h2" "store_ext h1 h2"
      "grid_size g2 = grid_size g1"
      "board h2 g2 = (board h1 g1)((x, y) \<mapsto> \<lparr>tx = int x, ty = int y, logValue = tileValue\<rparr>)"
    using addRandomTile_step [OF i(1,2) ne, of "draw k" tileValue] draw by blast
  have card: "card (free_cells g2) < card (free_cells g1)"
    using a(2,3) card_Diff1_less [OF finite_free_cells a(2)] by simp
  have c1: "card (free_cells g2) = card (free_cells g1) - 1"
    using a(3) card_Diff_singleton [OF a(2)] by simp
  have c0: "0 < card (free_cells g1)" using ne by (simp add: card_gt_0_iff)
  have "Suc k + card (free_cells g2) = card (free_cells g)" using i(6) c1 c0 by linarith
  moreover have "\<forall>p \<in> dom (board h g). board h2 g2 p = board h g p"
  proof
    fix p assume p: "p \<in> dom (board h g)"
    have "(x, y) \<notin> dom (board h g)"
      using a(2) i(5) by (auto simp add: free_cells_def board_def)
    then show "board h2 g2 p = board h g p" using p a(8) i(7) by auto
  qed
  moreover have "free_cells g2 \<subseteq> free_cells g" using a(3) i(5) by blast
  moreover have "grid_size g2 = grid_size g" using a(7) i(4) by simp
  moreover have "store_ext h h2" using store_ext_trans [OF i(3) a(6)] .
  ultimately have "fill_inv g h (Inr (Suc k, g2, h2))"
    unfolding fill_inv_def using a(4,5) by blast
  then show ?thesis using s a(1) card by simp
qed

lemma fill_new_step:
  assumes "fill_inv g h s" "fill_new tileValue g s"
    and "case s of Inr (k, g, h) \<Rightarrow> cellsAvailable g = Inr True | Inl e \<Rightarrow> False"
    and draw: "\<forall>k. 0 \<le> draw k \<and> draw k < 1"
  shows "fill_new tileValue g (js_bind s (\<lambda>(k, g, h). js_bind (addRandomTile tileValue (draw k) h g)
                                   (\<lambda>(g', h'). Inr (Suc k, g', h'))))"
proof -
  obtain k g1 h1 where s: "s = Inr (k, g1, h1)" and i: "grid_inv h1 g1" "store_ok h1"
      "free_cells g1 \<subseteq> free_cells g"
    using assms(1) unfolding fill_inv_def by blast
  have old: "\<forall>p \<in> free_cells g - free_cells g1.
           board h1 g1 p = Some \<lparr>tx = int (fst p), ty = int (snd p), logValue = tileValue\<rparr>"
    using assms(2) s by (simp add: fill_new_def)
  have wf: "wf_grid g1" using i(1) by (simp add: grid_inv_def)
  have ne: "free_cells g1 \<noteq> {}" using assms(3) s cellsAvailable_free [OF wf] by simp
  obtain x y g2 h2 where a: "addRandomTile tileValue (draw k) h1 g1 = Inr (g2, h2)" "(x, y) \<in> free_cells g1"
      "free_cells g2 = free_cells g1 - {(x, y)}"
      "board h2 g2 = (board h1 g1)((x, y) \<mapsto> \<lparr>tx = int x, ty = int y, logValue = tileValue\<rparr>)"
    using addRandomTile_step [OF i(1,2) ne, of "draw k" tileValue] draw by blast
  have "\<forall>p \<in> free_cells g - free_cells g2.
           board h2 g2 p = Some \<lparr>tx = int (fst p), ty = int (snd p), logValue = tileValue\<rparr>"
  proof
    fix p assume p: "p \<in> free_cells g - free_cells g2"
    show "board h2 g2 p = Some \<lparr>tx = int (fst p), ty = int (snd p), logValue = tileValue\<rparr>"
    proof (cases "p = (x, y)")
      case True
      then show ?thesis using a(4) by simp
    next
      case False
      then have "p \<in> free_cells g - free_cells g1" using p a(3) by blast
      then show ?thesis using old a(4) False by simp
    qed
  qed
  then show ?thesis using s a(1) by (simp add: fill_new_def)
qed

lemma fill_board_result:
  assumes "grid_inv h g" "store_ok h" "\<forall>k. 0 \<le> draw k \<and> draw k < 1"
  shows "\<exists>k g' h'. fill_board tileValue draw g h = Some (Inr (k, g', h')) \<and>
           fill_inv g h (Inr (k, g', h')) \<and> fill_new tileValue g (Inr (k, g', h')) \<and> free_cells g' = {}"
proof -
  let ?b = "\<lambda>s. case s of Inr (k, g, h) \<Rightarrow> cellsAvailable g = Inr True | Inl e \<Rightarrow> False"
  let ?c = "\<lambda>s. js_bind s (\<lambda>(k, g, h). js_bind (addRandomTile tileValue (draw k) h g) (\<lambda>(g', h'). Inr (Suc k, g', h')))"
  let ?f = "\<lambda>s. case s of Inr (k, g', h') \<Rightarrow> card (free_cells g') | Inl e \<Rightarrow> 0"
  let ?P = "\<lambda>s. fill_inv g h s \<and> fill_new tileValue g s"
  have i0: "?P (Inr (0, g, h))" using assms(1,2) by (auto simp add: fill_inv_def fill_new_def)
  have step: "\<And>s. ?P s \<Longrightarrow> ?b s \<Longrightarrow> ?P (?c s) \<and> ?f (?c s) < ?f s"
    using fill_step [OF _ _ assms(3)] fill_new_step [OF _ _ _ assms(3)] by blast
  obtain t where t: "while_option ?b ?c (Inr (0, g, h)) = Some t"
    using measure_while_option_Some [where P = ?P and f = ?f, OF step i0] by blast
  have it: "?P t"
    by (rule while_option_rule [where P = ?P, OF _ t]) (use step i0 in auto)
  have stop: "\<not> ?b t" by (rule while_option_stop [OF t])
  obtain k g' h' where k: "t = Inr (k, g', h')" "grid_inv h' g'"
    using it unfolding fill_inv_def by blast
  have wf: "wf_grid g'" using k(2) by (simp add: grid_inv_def)
  have "free_cells g' = {}" using stop k(1) cellsAvailable_free [OF wf] by simp
  then show ?thesis using t it k(1) by (simp add: fill_board_def)
qed

text \<open>C10: Every state the driver can reach from a new empty grid of size \<open>n\<close>
  satisfies the grid invariant in a well-formed store, keeps size \<open>n\<close>, and keeps
  \<open>highestTileLogValue = 0\<close>: adding and removing tiles never update it.\<close>

theorem reachable_inv:
  "reachable n s \<Longrightarrow> grid_inv (snd s) (fst s) \<and> store_ok (snd s) \<and> grid_size (fst s) = n \<and>
                      highestTileLogValue (fst s) = Some 0"
proof (induction rule: reachable.induct)
  case (start h g h')
  then show ?case by (auto simp add: Grid_None grid_inv_empty)
next
  case (step s s')
  obtain g h where s: "s = (g, h)" by (cases s)
  from step.hyps(2) [unfolded s] show ?case
  proof (cases rule: game_step.cases)
    case (add random tileValue g' h')
    then show ?thesis using addRandomTile_inv [of h g random tileValue g' h'] step.IH s by auto
  next
    case (remove r g')
    then show ?thesis
      using removeTile_invs [of h r g g'] removeTile_shape [of h r g g'] step.IH s
      by (auto simp add: grid_inv_def)
  qed
qed

text \<open>C19: From any grid satisfying the invariant, the driver can always go on
  adding tiles until the board is full: some run of steps reaches a grid on which
  \<open>cellsAvailable\<close> is false.\<close>

theorem fill_reachable:
  assumes "grid_inv h g" "store_ok h"
  shows "\<exists>g' h'. game_step\<^sup>*\<^sup>* (g, h) (g', h') \<and> cellsAvailable g' = Inr False \<and> grid_inv h' g'"
proof -
  obtain g' h' where f: "game_step\<^sup>*\<^sup>* (g, h) (g', h')" "free_cells g' = {}" "grid_inv h' g'"
    using fill_steps [OF assms] by blast
  have "wf_grid g'" using f(3) by (simp add: grid_inv_def)
  then have "cellsAvailable g' = Inr False" using f(2) by (simp add: cellsAvailable_free)
  then show ?thesis using f(1,3) by blast
qed

text \<open>C17: The loop that adds a random tile while \<open>cellsAvailable\<close>
  holds terminates for every sequence of draws in [0, 1): it returns after exactly as many
  iterations as there were free cells, with a full board that satisfies the invariant and
  still holds every tile of the starting board.\<close>

theorem fill_board_terminates:
  assumes "grid_inv h g" "store_ok h" "\<forall>k. 0 \<le> draw k \<and> draw k < 1"
  shows "\<exists>g' h'. fill_board tileValue draw g h = Some (Inr (card (free_cells g), g', h')) \<and>
           cellsAvailable g' = Inr False \<and> grid_inv h' g' \<and>
           (\<forall>p \<in> dom (board h g). board h' g' p = board h g p)"
proof -
  obtain k g' h' where r: "fill_board tileValue draw g h = Some (Inr (k, g', h'))"
      "fill_inv g h (Inr (k, g', h'))" "free_cells g' = {}"
    using fill_board_result [OF assms] by blast
  then have i: "grid_inv h' g'" "k = card (free_cells g)"
      "\<forall>p \<in> dom (board h g). board h' g' p = board h g p"
    unfolding fill_inv_def by auto
  have "wf_grid g'" using i(1) by (simp add: grid_inv_def)
  then have "cellsAvailable g' = Inr False" using r(3) by (simp add: cellsAvailable_free)
  then show ?thesis using r(1) i by blast
qed

text \<open>C18: The fill loop puts a tile of the driver's value on exactly the
  cells that were free: afterwards every formerly free cell \<open>(x, y)\<close> holds a tile at
  \<open>(x, y)\<close> with that log value.\<close>

theorem fill_board_values:
  assumes "grid_inv h g" "store_ok h" "\<forall>k. 0 \<le> draw k \<and> draw k < 1"
  shows "\<exists>g' h'. fill_board tileValue draw g h = Some (Inr (card (free_cells g), g', h')) \<and>
           (\<forall>p \<in> free_cells g. board h' g' p = Some \<lparr>tx = int (fst p), ty = int (snd p), logValue = tileValue\<rparr>)"
proof -
  obtain k g' h' where r: "fill_board tileValue draw g h = Some (Inr (k, g', h'))"
      "fill_inv g h (Inr (k, g', h'))" "fill_new tileValue g (Inr (k, g', h'))" "free_cells g' = {}"
    using fill_board_result [OF assms] by blast
  have "k = card (free_cells g)" using r(2,4) unfolding fill_inv_def by auto
  then show ?thesis using r(1,3,4) by (auto simp add: fill_new_def)
qed

end
