(* ===== verification/Spec2Isabelle.thy ===== *)
theory Spec2Isabelle
  imports Grid_Score Grid_Snapshot Grid_Game
begin

text \<open>
  A verification development for \<open>src/js/grid_zen.js\<close>, the board of a 2048 variant
  with a difficulty-aware tile generator.  The file defines one JavaScript constructor,
  \<open>Grid(size, previousState)\<close>, and its prototype methods.  The methods fall into four
  groups.  Construction (\<open>empty\<close>, \<open>fromState\<close>).  Cell queries and mutation
  (\<open>eachCell\<close>, \<open>availableCells\<close>, \<open>randomAvailableCell\<close>, \<open>cellContent\<close>,
  \<open>insertTile\<close>, \<open>removeTile\<close>, ...).  The score heuristic and tile generator
  (\<open>lowestTileLogValue\<close>, \<open>getGeneratedTileValue\<close>, \<open>getScore\<close>, ...).
  Snapshots and copies (\<open>serialize\<close>, \<open>clone\<close>).  The grid stores \<open>Tile\<close>
  objects; the \<open>Tile\<close> class is not in the repository and is modelled from its contract.

  \<^bold>\<open>Theories.\<close>
  \<^item> \<open>Prelude\<close>: the JavaScript semantics the methods share.  A thrown exception is
    \<open>Inl TypeError\<close> of \<open>'a js_result\<close>, with \<open>js_bind\<close> propagating it.
    \<open>js_get\<close>, \<open>js_row\<close> and \<open>js_read2\<close> read arrays: an out-of-range index gives
    \<open>undefined\<close> (\<open>None\<close>), and indexing \<open>undefined\<close> throws.  \<open>js_set\<close> and
    \<open>js_write2\<close> write arrays, extending them past the end as JavaScript does.
    \<open>for_upto_e\<close> and \<open>for_each_e\<close> are \<open>for\<close> loops that may throw.  A nested
    pair of loops over \<open>size\<close> is one loop over \<open>coords size\<close> in row-major order.
    \<open>js_sort\<close> is \<open>Array.prototype.sort\<close> with a comparator, as a stable insertion
    sort.  \<open>js_div\<close> and \<open>js_add\<close> are double arithmetic, with \<open>None\<close> for a
    non-finite value.
  \<^item> \<open>Tile\<close>: tiles as records in an explicit object store (\<open>objs\<close> maps addresses
    to objects, \<open>next_ref\<close> is the next free address).  This lets sharing of tile objects
    between cells and grids be stated.  It holds \<open>new_Tile\<close>, \<open>tile_clone\<close> and
    \<open>tile_serialize\<close>, all modelled from the spec.
  \<^item> \<open>Grid_Base\<close>: the grid object as the record \<open>grid\<close> (fields \<open>size\<close>,
    \<open>cells\<close>, \<open>highestTileLogValue\<close>, \<open>playerTurn\<close>), \<open>grid_empty\<close>,
    \<open>fromState\<close> and the constructor \<open>Grid\<close> (lines 1--35).  It also holds the abstract
    view \<open>board\<close> (coordinates inside \<open>size\<close> to tiles) and the grid invariant
    \<open>grid_inv\<close>: one row per coordinate, every stored reference an object, and every tile
    at the cell named by its own \<open>x\<close> and \<open>y\<close>.
  \<^item> \<open>Grid_Cells\<close>: lines 37--101, one definition per method.  \<open>Math.random()\<close>
    is the argument \<open>random\<close>.  \<open>cell_step\<close> and \<open>cell_run\<close> run a sequence of
    \<open>insertTile\<close>/\<open>removeTile\<close> calls, the way the game driver issues them.
  \<^item> \<open>Grid_Score\<close>: lines 105--184.  The global \<open>gameDifficulty\<close> is an argument.
    The \<open>for\<close> loop of \<open>getScore\<close> is \<open>score_loop\<close>, a function whose termination
    measure is \<open>length vals - i\<close>.  \<open>getScore\<close> writes \<open>highestTileLogValue\<close>,
    so it returns the updated grid together with the score.
  \<^item> \<open>Grid_Snapshot\<close>: lines 186--215, \<open>serialize\<close> and \<open>clone\<close>, which thread
    the store through the tile clones they allocate.
  \<^item> \<open>Grid_Game\<close>: the grid as the game driver uses it, modelled from the spec
    (the driver is not in the sources).  \<open>addRandomTile\<close> checks
    \<open>cellsAvailable\<close>, draws a cell with \<open>randomAvailableCell\<close>, builds a
    \<open>new Tile\<close> and inserts it.  \<open>game_step\<close> is the driver's step relation (add a
    random tile or remove a tile), and \<open>reachable n\<close> its states from a new grid.
    \<open>fill_board\<close> is the loop \<open>while (cellsAvailable()) addRandomTile()\<close>, written
    with \<open>while_option\<close>.
  \<^item> This theory: a property that spans cloning and scoring, the example states, and the
    witnesses that instantiate each property on a concrete grid by \<open>simp\<close>.

  \<^bold>\<open>What is proved.\<close>
  \<^item> Refinement of the cell mutations.  \<open>insertTile\<close> and \<open>removeTile\<close> are updates
    of \<open>board\<close>, and any sequence of them keeps \<open>grid_inv\<close>.  After an insertion,
    \<open>cellContent\<close> returns the tile; after a removal, it returns nothing.  A whole run of
    them refines the abstract step \<open>board_step\<close> applied in the same order.  The exceptions
    of \<open>insertTile\<close> are characterized exactly.  \<open>insertTile\<close> does not check
    occupancy: on an occupied cell it replaces the occupant, whose tile object silently
    leaves the grid.
  \<^item> Queries.  An empty grid lists every cell as available.  \<open>randomAvailableCell\<close>
    picks uniformly, and always picks an empty cell inside the board.  \<open>cellAvailable\<close> agrees with \<open>availableCells\<close> on a 4 by 4 grid.
    The fixed bounds of \<open>withinBounds\<close> make \<open>cellContent\<close> throw on smaller grids.
    On larger grids they report occupied cells as available.
  \<^item> Score.
    \<^item> On a non-empty grid, \<open>getScore\<close> never divides by zero and returns a finite value in
      \<open>[m - 1, m)\<close>, where \<open>m\<close> is the highest log value.  On an empty grid it returns
      \<open>NaN\<close>.  With a single tile it returns exactly \<open>v - 1\<close> (a case of the
      closed form below).
    \<^item> The loop equals a closed-form reference sum (\<open>score_sum\<close>).  The score depends
      only on the multiset of log values.  A larger highest tile always gives a larger
      score.
    \<^item> \<open>getGeneratedTileValue\<close> is \<open>max (ceil (hv / 2)) (hv - gameDifficulty)\<close>.
    \<^item> \<open>lowestTileLogValue\<close> and \<open>evenNumLowValues\<close> compute the minimum and the
      parity of its count over the fixed 4 by 4 region.  Both throw on smaller grids.
      A counterexample shows that \<open>lowestTileLogValue\<close> loses a negative minimum.
  \<^item> Snapshots.
    \<^item> \<open>serialize\<close> followed by \<open>new Grid(size, cells)\<close> rebuilds the same board from
      fresh tile objects.  In the other direction, rebuilding a square snapshot and
      serializing it gives back that snapshot.
    \<^item> \<open>clone\<close> yields the same board and keeps the invariant.  It shares no object with
      the original, so writing a clone's tile never changes the original's board.
    \<^item> The score and the snapshot of a clone equal those of the original.
    \<^item> \<open>serialize\<close> returns a \<open>size\<close> by \<open>size\<close> array.  A snapshot with too
      few rows makes the constructor throw.
  \<^item> Driver.
    \<^item> Every reachable state satisfies the grid invariant, and
      \<open>highestTileLogValue\<close> stays 0 there.
    \<^item> From any such state the board can always be filled (liveness).
    \<^item> The fill loop terminates after exactly as many iterations as there are free cells.
      It puts a tile of the driver's value on exactly the cells that were free.
      Its measure is the number of free cells.

  \<^bold>\<open>Modelling choices.\<close>
  \<^item> Doubles are reals, since the score arithmetic never overflows at board sizes.
  \<^item> Loops over \<open>size\<close> are structural recursion, so no fuel is needed.
  \<^item> The driver's fill loop is a \<open>while_option\<close>, proved to return \<open>Some\<close>.  The only
    non-structural loop is the one in \<open>getScore\<close>, which is proved to terminate.
  \<^item> Reading a field of a value that is not an object (a dangling reference) is
    \<open>TypeError\<close>.

  \<^bold>\<open>Not modelled.\<close>  Every statement of \<open>src/js/grid_zen.js\<close> is translated by
  some definition above.  What remains outside the model:
  \<^item> The game rules (moves, merges, win and loss), input, rendering and persistence
    I/O: they are not in the sources or the spec.  The driver is modelled only as far as the
    spec describes its use of the grid.
  \<^item> The global variable that \<open>clone\<close> writes (\<open>newGrid\<close> without \<open>var\<close>): it
    is read nowhere in the file.
  \<^item> The concrete \<open>Tile\<close> implementation beyond its contract.
\<close>

section \<open>Example states\<close>

text \<open>A 2 by 2 board and a store holding one tile at position (1, 0); a 5 by 5 board
  and a store holding a tile at (4, 2).  The witnesses below evaluate the operations on
  them by simp.\<close>

abbreviation ex_tile :: tile where
  "ex_tile \<equiv> \<lparr>tx = 1, ty = 0, logValue = 3\<rparr>"

abbreviation ex_store :: store where
  "ex_store \<equiv> \<lparr>objs = [0 \<mapsto> ex_tile], next_ref = 1\<rparr>"

abbreviation ex_grid :: grid where
  "ex_grid \<equiv> \<lparr>grid_size = 2, cells = [[None, None], [None, None]],
              highestTileLogValue = Some 0, playerTurn = None\<rparr>"

abbreviation ex_grid1 :: grid where
  "ex_grid1 \<equiv> \<lparr>grid_size = 2, cells = [[None, None], [Some 0, None]],
               highestTileLogValue = Some 0, playerTurn = None\<rparr>"

abbreviation ex_grid5 :: grid where
  "ex_grid5 \<equiv> \<lparr>grid_size = 5, cells = replicate 5 (replicate 5 None),
               highestTileLogValue = Some 0, playerTurn = None\<rparr>"

abbreviation ex_store5 :: store where
  "ex_store5 \<equiv> \<lparr>objs = [0 \<mapsto> \<lparr>tx = 4, ty = 2, logValue = 1\<rparr>], next_ref = 1\<rparr>"

abbreviation ex_grid4 :: grid where
  "ex_grid4 \<equiv> \<lparr>grid_size = 4, cells = [replicate 4 None, [Some 0, None, None, None], replicate 4 None, replicate 4 None],
               highestTileLogValue = Some 0, playerTurn = None\<rparr>"

abbreviation ex_store0 :: store where
  "ex_store0 \<equiv> \<lparr>objs = Map.empty, next_ref = 0\<rparr>"

abbreviation ex_store2 :: store where
  "ex_store2 \<equiv> \<lparr>objs = [0 \<mapsto> \<lparr>tx = 0, ty = 0, logValue = 4\<rparr>, 1 \<mapsto> \<lparr>tx = 1, ty = 0, logValue = 3\<rparr>],
                 next_ref = 2\<rparr>"

abbreviation ex_grid2 :: grid where
  "ex_grid2 \<equiv> \<lparr>grid_size = 2, cells = [[Some 0, None], [Some 1, None]],
               highestTileLogValue = Some 0, playerTurn = None\<rparr>"



abbreviation ex_store_ow :: store where
  "ex_store_ow \<equiv> \<lparr>objs = [0 \<mapsto> ex_tile, 1 \<mapsto> \<lparr>tx = 1, ty = 0, logValue = 5\<rparr>], next_ref = 2\<rparr>"

section \<open>Properties spanning components\<close>

text \<open>C15: The score heuristic cannot tell a clone from its original: on a grid
  satisfying the grid invariant, \<open>getScore\<close> of the clone returns the same score and records
  the same highest log value as \<open>getScore\<close> of the original.\<close>

theorem clone_getScore:
  assumes "grid_inv h g" "store_ok h"
  shows "\<exists>g2 h2. clone h g = Inr (g2, h2) \<and>
           map_sum id snd (getScore d h2 g2) = map_sum id snd (getScore d h g) \<and>
           map_sum id (highestTileLogValue \<circ> fst) (getScore d h2 g2) =
           map_sum id (highestTileLogValue \<circ> fst) (getScore d h g)"
proof -
  obtain g2 h2 where c: "clone h g = Inr (g2, h2)" and p: "clone_prefix h g (coords (grid_size g)) g2 h2"
    using clone_spec [OF assms] by blast
  have ro: "refs_ok h g" and wf: "wf_grid g" using assms(1) by (simp_all add: grid_inv_def)
  have inv2: "grid_inv h2 g2" by (rule clone_prefix_inv [OF assms(1) p])
  then have ro2: "refs_ok h2 g2" and wf2: "wf_grid g2" by (simp_all add: grid_inv_def)
  have "grid_size g2 = grid_size g" using clone_prefix_shape [OF p] by simp
  then have "tile_values h2 g2 = tile_values h g"
    using tile_values_board [OF ro2] tile_values_board [OF ro] clone_prefix_board [OF ro p] by simp
  then show ?thesis
    using c by (simp add: getScore_wf [OF wf2 ro2] getScore_wf [OF wf ro] Let_def
        getGeneratedTileValue_def getHighestTileLogValue_def)
qed

section \<open>Counterexamples\<close>


section \<open>Witnesses\<close>

lemma ex_insert: "insertTile ex_store 0 ex_grid = Inr ex_grid1"
  by (simp add: insertTile_def get_tile_def js_write2_def js_row_def js_set_def)

lemma ex_remove: "removeTile ex_store 0 ex_grid1 = Inr ex_grid"
  by (simp add: removeTile_def get_tile_def js_write2_def js_row_def js_set_def)

theorem insertTile_board_witness:
  "wf_grid ex_grid \<and> insertTile ex_store 0 ex_grid = Inr ex_grid1 \<and> objs ex_store 0 = Some ex_tile \<and>
   board ex_store ex_grid1 = (board ex_store ex_grid)((1, 0) \<mapsto> ex_tile)"
proof -
  have wf: "wf_grid ex_grid" by (simp add: wf_grid_def)
  have o: "objs ex_store 0 = Some ex_tile" by simp
  show ?thesis using insertTile_board [OF wf ex_insert o] wf ex_insert o by simp
qed

theorem insertTile_cellContent_witness:
  "insertTile ex_store 0 ex_grid = Inr ex_grid1 \<and> objs ex_store 0 = Some ex_tile \<and>
   withinBounds \<lparr>px = 1, py = 0\<rparr> \<and> cellContent ex_grid1 \<lparr>px = 1, py = 0\<rparr> = Inr (Some 0)"
proof -
  have o: "objs ex_store 0 = Some ex_tile" by simp
  have b: "withinBounds \<lparr>px = tx ex_tile, py = ty ex_tile\<rparr>" by (simp add: withinBounds_def)
  show ?thesis using insertTile_cellContent [OF ex_insert o b] ex_insert o b by simp
qed

theorem cell_run_inv_witness:
  "grid_inv ex_store ex_grid \<and> cell_run ex_store ex_grid [Insert 0, Remove 0] = Inr ex_grid \<and>
   grid_inv ex_store ex_grid"
proof -
  have i: "grid_inv ex_store ex_grid"
    using grid_inv_empty [of ex_store 2 "Some 0" None] by (simp add: numeral_2_eq_2)
  have r: "cell_run ex_store ex_grid [Insert 0, Remove 0] = Inr ex_grid"
    by (simp add: cell_run_def insertTile_def removeTile_def get_tile_def js_write2_def js_row_def js_set_def)
  show ?thesis using cell_run_inv [OF i r] i r by simp
qed

theorem randomAvailableCell_uniform_witness:
  "wf_grid ex_grid1 \<and> availableCells ex_grid1 = Inr [\<lparr>px = 0, py = 0\<rparr>, \<lparr>px = 0, py = 1\<rparr>, \<lparr>px = 1, py = 1\<rparr>] \<and>
   (randomAvailableCell ex_grid1 (1/2) = Inr (Some \<lparr>px = 0, py = 1\<rparr>) \<longleftrightarrow>
     real 1 \<le> 1/2 * real 3 \<and> 1/2 * real 3 < real 1 + (1::real))"
proof -
  have wf: "wf_grid ex_grid1" by (simp add: wf_grid_def)
  have a: "availableCells ex_grid1 = Inr [\<lparr>px = 0, py = 0\<rparr>, \<lparr>px = 0, py = 1\<rparr>, \<lparr>px = 1, py = 1\<rparr>]"
    by (simp add: availableCells_wf [OF wf] coords_def cell_def js_row_def js_get_def upt_rec)
  have k: "1 < length [\<lparr>px = 0, py = 0\<rparr>, \<lparr>px = 0, py = 1\<rparr>, \<lparr>px = 1::int, py = 1::int\<rparr>]" by simp
  show ?thesis
    using randomAvailableCell_uniform [OF wf a k, of "1/2"] wf a by simp
qed

theorem removeTile_board_witness:
  "wf_grid ex_grid1 \<and> removeTile ex_store 0 ex_grid1 = Inr ex_grid \<and> objs ex_store 0 = Some ex_tile \<and>
   board ex_store ex_grid = (board ex_store ex_grid1)((1, 0) := None)"
proof -
  have wf: "wf_grid ex_grid1" by (simp add: wf_grid_def)
  have o: "objs ex_store 0 = Some ex_tile" by simp
  show ?thesis using removeTile_board [OF wf ex_remove o] wf ex_remove o by simp
qed

theorem removeTile_cellContent_witness:
  "removeTile ex_store 0 ex_grid1 = Inr ex_grid \<and> objs ex_store 0 = Some ex_tile \<and>
   cellContent ex_grid \<lparr>px = 1, py = 0\<rparr> = Inr None"
proof -
  have o: "objs ex_store 0 = Some ex_tile" by simp
  show ?thesis using removeTile_cellContent [OF ex_remove o] ex_remove o by simp
qed

theorem randomAvailableCell_single_witness:
  "availableCells \<lparr>grid_size = 1, cells = [[None]], highestTileLogValue = Some 0, playerTurn = None\<rparr>
     = Inr [\<lparr>px = 0, py = 0\<rparr>] \<and> 0 \<le> (0.7::real) \<and> (0.7::real) < 1 \<and>
   randomAvailableCell \<lparr>grid_size = 1, cells = [[None]], highestTileLogValue = Some 0, playerTurn = None\<rparr> 0.7
     = Inr (Some \<lparr>px = 0, py = 0\<rparr>)"
proof -
  have a: "availableCells \<lparr>grid_size = 1, cells = [[None]], highestTileLogValue = Some 0, playerTurn = None\<rparr>
     = Inr [\<lparr>px = 0, py = 0\<rparr>]"
    by (simp add: availableCells_wf wf_grid_def coords_def js_get_def)
  show ?thesis using randomAvailableCell_single [OF a, of "0.7"] a by simp
qed

theorem randomAvailableCell_full_witness:
  "availableCells \<lparr>grid_size = 1, cells = [[Some 0]], highestTileLogValue = Some 0, playerTurn = None\<rparr> = Inr [] \<and>
   randomAvailableCell \<lparr>grid_size = 1, cells = [[Some 0]], highestTileLogValue = Some 0, playerTurn = None\<rparr> 0.3
     = Inr None"
proof -
  have a: "availableCells \<lparr>grid_size = 1, cells = [[Some 0]], highestTileLogValue = Some 0, playerTurn = None\<rparr> = Inr []"
    by (simp add: availableCells_wf wf_grid_def coords_def js_get_def)
  show ?thesis using randomAvailableCell_full [OF a, of "0.3"] a by simp
qed

theorem cellContent_small_grid_witness:
  "wf_grid ex_grid \<and> grid_size ex_grid < 4 \<and> cellContent ex_grid \<lparr>px = 2, py = 1\<rparr> = Inl TypeError"
proof -
  have wf: "wf_grid ex_grid" by (simp add: wf_grid_def)
  show ?thesis using cellContent_small_grid [OF wf, of 1] wf by simp
qed

theorem cellAvailable_availableCells_witness:
  "wf_grid \<lparr>grid_size = 4, cells = replicate 4 (replicate 4 None), highestTileLogValue = Some 0, playerTurn = None\<rparr> \<and>
   cellAvailable \<lparr>grid_size = 4, cells = replicate 4 (replicate 4 None), highestTileLogValue = Some 0, playerTurn = None\<rparr>
     \<lparr>px = 3, py = 2\<rparr> = Inr True"
proof -
  let ?g = "\<lparr>grid_size = 4, cells = replicate 4 (replicate 4 None), highestTileLogValue = Some 0, playerTurn = None\<rparr>"
  have wf: "wf_grid ?g" by (simp add: wf_grid_def)
  have c: "\<And>x y. cell ?g x y = None" by (simp add: cell_def js_row_def js_get_def)
  have a: "availableCells ?g = Inr (map (\<lambda>(x, y). \<lparr>px = int x, py = int y\<rparr>) (coords 4))"
    using availableCells_wf [OF wf] by (simp only: c) (simp add: concat_map_pair_singleton)
  have b: "withinBounds \<lparr>px = 3, py = 2\<rparr>" by (simp add: withinBounds_def)
  have "(3, 2) \<in> set (coords 4)" by simp
  then have m: "\<lparr>px = 3, py = 2\<rparr> \<in> set (map (\<lambda>(x, y). \<lparr>px = int x, py = int y\<rparr>) (coords 4))"
    by (force intro: image_eqI [where x = "(3, 2)"])
  show ?thesis using cellAvailable_availableCells [OF wf _ a b] wf m by simp
qed

theorem insert_beyond_withinBounds_witness:
  "wf_grid ex_grid5 \<and> 4 < grid_size ex_grid5 \<and>
   insertTile ex_store5 0 ex_grid5 = Inr (ex_grid5\<lparr>cells := (cells ex_grid5)[4 := (replicate 5 None)[2 := Some 0]]\<rparr>) \<and>
   board ex_store5 (ex_grid5\<lparr>cells := (cells ex_grid5)[4 := (replicate 5 None)[2 := Some 0]]\<rparr>) (4, 2) =
     Some \<lparr>tx = 4, ty = 2, logValue = 1\<rparr> \<and>
   cellAvailable (ex_grid5\<lparr>cells := (cells ex_grid5)[4 := (replicate 5 None)[2 := Some 0]]\<rparr>) \<lparr>px = 4, py = 2\<rparr> = Inr True"
proof -
  have wf: "wf_grid ex_grid5" by (simp add: wf_grid_def)
  have i: "insertTile ex_store5 0 ex_grid5 =
             Inr (ex_grid5\<lparr>cells := (cells ex_grid5)[4 := (replicate 5 None)[2 := Some 0]]\<rparr>)"
    by (simp add: insertTile_def get_tile_def js_write2_def js_row_def js_set_def)
  have o: "objs ex_store5 0 = Some \<lparr>tx = 4, ty = 2, logValue = 1\<rparr>" by simp
  show ?thesis using insert_beyond_withinBounds [OF wf _ i o] wf i by simp
qed

lemma ex_grid4_ok: "wf_grid ex_grid4 \<and> refs_ok ex_store ex_grid4"
  by (auto simp add: wf_grid_def refs_ok_def grid_refs_def numeral_eq_Suc)

lemma ex_region4: "region_values ex_store ex_grid4 4 = [3]"
  by (simp add: region_values_def coords_def upt_rec js_get_def js_row_def cell_def)

lemma ex_tile_values1: "tile_values ex_store ex_grid1 = [3]"
  by (simp add: tile_values_def region_values_def coords_def upt_rec js_get_def js_row_def cell_def)

lemma ex_grid1_ok: "wf_grid ex_grid1 \<and> refs_ok ex_store ex_grid1"
  by (auto simp add: wf_grid_def refs_ok_def grid_refs_def numeral_eq_Suc)

theorem lowestTileLogValue_min_witness:
  "lowestTileLogValue ex_store ex_grid4 = Inr 3"
  using lowestTileLogValue_min [of ex_grid4 ex_store] ex_grid4_ok ex_region4 by simp

theorem lowestTileLogValue_small_witness:
  "\<exists>e. lowestTileLogValue ex_store ex_grid = Inl e"
  using lowestTileLogValue_small [of ex_grid ex_store] by (simp add: wf_grid_def)

theorem evenNumLowValues_count_witness:
  "evenNumLowValues ex_store ex_grid4 = Inr False"
  using evenNumLowValues_count [of ex_grid4 ex_store] ex_grid4_ok ex_region4 by simp

theorem getGeneratedTileValue_Some_witness:
  "getGeneratedTileValue 2 ex_grid5 = Some 0 \<and> getGeneratedTileValue 1 (ex_grid5\<lparr>highestTileLogValue := Some 7\<rparr>) = Some 6"
  using getGeneratedTileValue_Some [of ex_grid5 0 2] getGeneratedTileValue_Some [of "ex_grid5\<lparr>highestTileLogValue := Some 7\<rparr>" 7 1]
  by (simp add: getHighestTileLogValue_def)


theorem getScore_single_example:
  "getScore 2 ex_store ex_grid1 = Inr (ex_grid1\<lparr>highestTileLogValue := Some 3\<rparr>, Some 2)"
  using getScore_single [of ex_grid1 ex_store 3 2] ex_grid1_ok ex_tile_values1 by simp

theorem getScore_empty_witness:
  "getScore 2 ex_store ex_grid = Inr (ex_grid\<lparr>highestTileLogValue := None\<rparr>, None)"
  using getScore_empty [of ex_grid ex_store 2]
  by (simp add: wf_grid_def refs_ok_def grid_refs_def tile_values_def region_values_def coords_def
      upt_rec js_get_def js_row_def cell_def)

theorem insertTile_overwrite_witness:
  "insertTile ex_store_ow 1 ex_grid1 = Inr (ex_grid1\<lparr>cells := [[None, None], [Some 1, None]]\<rparr>) \<and>
   board ex_store_ow (ex_grid1\<lparr>cells := [[None, None], [Some 1, None]]\<rparr>) (1, 0) = Some \<lparr>tx = 1, ty = 0, logValue = 5\<rparr> \<and>
   0 \<notin> grid_refs (ex_grid1\<lparr>cells := [[None, None], [Some 1, None]]\<rparr>)"
proof -
  have ins: "insertTile ex_store_ow 1 ex_grid1 = Inr (ex_grid1\<lparr>cells := [[None, None], [Some 1, None]]\<rparr>)"
    by (simp add: insertTile_def get_tile_def js_write2_def js_row_def js_set_def)
  have inv: "grid_inv ex_store_ow ex_grid1"
    by (auto simp add: grid_inv_def wf_grid_def refs_ok_def grid_refs_def pos_inv_def js_get_def
        less_Suc_eq numeral_2_eq_2 split: if_splits)
  have c: "cell ex_grid1 1 0 = Some 0" by (simp add: cell_def js_row_def js_get_def)
  show ?thesis
    using insertTile_overwrite [OF inv c _ ins, of "\<lparr>tx = 1, ty = 0, logValue = 5\<rparr>"] ins by simp
qed

lemma ex_grid1_inv: "grid_inv ex_store ex_grid1 \<and> store_ok ex_store"
  by (auto simp add: grid_inv_def wf_grid_def refs_ok_def grid_refs_def pos_inv_def js_get_def
      store_ok_def less_Suc_eq numeral_2_eq_2 split: if_splits)

lemma ex_board1: "board ex_store ex_grid1 (1, 0) = Some ex_tile"
  by (simp add: board_def cell_def js_row_def js_get_def)

theorem clone_board_witness:
  "\<exists>g2 h2. clone ex_store ex_grid1 = Inr (g2, h2) \<and> grid_size g2 = 2 \<and>
     board h2 g2 (1, 0) = Some ex_tile \<and> board h2 ex_grid1 (1, 0) = Some ex_tile \<and>
     playerTurn g2 = None \<and> highestTileLogValue g2 = Some 0"
  using clone_board [of ex_store ex_grid1] ex_grid1_inv ex_board1 by fastforce

theorem clone_inv_witness:
  "\<exists>g2 h2. clone ex_store ex_grid1 = Inr (g2, h2) \<and> grid_inv h2 g2 \<and> store_ok h2 \<and> store_ext ex_store h2"
  using clone_inv [of ex_store ex_grid1] ex_grid1_inv by blast

theorem clone_independent_witness:
  "\<exists>g2 h2. clone ex_store ex_grid1 = Inr (g2, h2) \<and> grid_refs g2 \<inter> grid_refs ex_grid1 = {} \<and>
     (\<forall>r \<in> grid_refs g2. board (h2\<lparr>objs := (objs h2)(r \<mapsto> ex_tile\<lparr>logValue := 9\<rparr>)\<rparr>) ex_grid1 (1, 0) = Some ex_tile)"
  using clone_independent [of ex_store ex_grid1] ex_grid1_inv ex_board1 by fastforce

theorem serialize_roundtrip_witness:
  "\<exists>s g2 h2. serialize ex_store ex_grid1 = Inr s \<and>
     Grid (snap_size s) (Some (snap_cells s)) ex_store = Inr (g2, h2) \<and>
     grid_size g2 = 2 \<and> board h2 g2 (1, 0) = Some ex_tile \<and> grid_inv h2 g2 \<and>
     grid_refs g2 \<inter> dom (objs ex_store) = {}"
  using serialize_roundtrip [of ex_store ex_grid1 ex_store] ex_grid1_inv ex_board1 by fastforce

theorem clone_getScore_witness:
  "\<exists>g2 h2. clone ex_store ex_grid1 = Inr (g2, h2) \<and>
     map_sum id snd (getScore 2 h2 g2) = map_sum id snd (getScore 2 ex_store ex_grid1) \<and>
     map_sum id (highestTileLogValue \<circ> fst) (getScore 2 h2 g2) =
     map_sum id (highestTileLogValue \<circ> fst) (getScore 2 ex_store ex_grid1)"
  using clone_getScore [of ex_store ex_grid1 2] ex_grid1_inv by blast

lemma ex_reach0: "reachable 2 (ex_grid, ex_store0)"
  by (rule reachable.start [of ex_store0]) (simp_all add: store_ok_def Grid_None numeral_2_eq_2)

lemma ex_add0: "addRandomTile 1 0 ex_store0 ex_grid =
   Inr (ex_grid\<lparr>cells := [[Some 0, None], [None, None]]\<rparr>,
        \<lparr>objs = [0 \<mapsto> \<lparr>tx = 0, ty = 0, logValue = 1\<rparr>], next_ref = 1\<rparr>)"
  by (simp add: addRandomTile_def cellsAvailable_def randomAvailableCell_def availableCells_def
      eachCell_def for_upto_e_def numeral_2_eq_2 js_read2_def js_row_def js_get_def new_Tile_def alloc_def
      insertTile_def get_tile_def js_write2_def js_set_def)

theorem reachable_inv_witness:
  "reachable 2 (ex_grid\<lparr>cells := [[Some 0, None], [None, None]]\<rparr>,
                \<lparr>objs = [0 \<mapsto> \<lparr>tx = 0, ty = 0, logValue = 1\<rparr>], next_ref = 1\<rparr>) \<and>
   grid_inv \<lparr>objs = [0 \<mapsto> \<lparr>tx = 0, ty = 0, logValue = 1\<rparr>], next_ref = 1\<rparr>
            (ex_grid\<lparr>cells := [[Some 0, None], [None, None]]\<rparr>)"
proof -
  have r: "reachable 2 (ex_grid\<lparr>cells := [[Some 0, None], [None, None]]\<rparr>,
                \<lparr>objs = [0 \<mapsto> \<lparr>tx = 0, ty = 0, logValue = 1\<rparr>], next_ref = 1\<rparr>)"
    by (rule reachable.step [OF ex_reach0 game_step.add [OF _ _ ex_add0]]) simp_all
  show ?thesis using reachable_inv [OF r] r by simp
qed

lemma ex_free1: "free_cells ex_grid1 = {(0, 0), (0, 1), (1, 1)}"
  by (auto simp add: free_cells_def cell_def js_row_def js_get_def less_Suc_eq numeral_2_eq_2)

theorem fill_reachable_witness:
  "\<exists>g' h'. game_step\<^sup>*\<^sup>* (ex_grid1, ex_store) (g', h') \<and> cellsAvailable g' = Inr False \<and> grid_inv h' g'"
  using fill_reachable [of ex_store ex_grid1] ex_grid1_inv by blast

theorem fill_board_terminates_witness:
  "\<exists>g' h'. fill_board 1 (\<lambda>k. 0) ex_grid1 ex_store = Some (Inr (3, g', h')) \<and>
     cellsAvailable g' = Inr False \<and> grid_inv h' g' \<and> board h' g' (1, 0) = Some ex_tile"
proof -
  have d: "\<forall>k. 0 \<le> (\<lambda>k. 0::real) k \<and> (\<lambda>k. 0::real) k < 1" by simp
  obtain g' h' where f: "fill_board 1 (\<lambda>k. 0) ex_grid1 ex_store = Some (Inr (card (free_cells ex_grid1), g', h'))"
      "cellsAvailable g' = Inr False" "grid_inv h' g'"
      "\<forall>p \<in> dom (board ex_store ex_grid1). board h' g' p = board ex_store ex_grid1 p"
    using fill_board_terminates [of ex_store ex_grid1 "\<lambda>k. 0" 1] ex_grid1_inv d by blast
  have "board h' g' (1, 0) = Some ex_tile" using f(4) ex_board1 by (simp add: domI)
  moreover have "card (free_cells ex_grid1) = 3" by (simp add: ex_free1)
  ultimately show ?thesis using f(1-3) by auto
qed

lemma ex_tile_values2: "tile_values ex_store2 ex_grid2 = [4, 3]"
  by (simp add: tile_values_def region_values_def coords_def upt_rec js_get_def js_row_def cell_def)

lemma ex_grid2_ok: "wf_grid ex_grid2 \<and> refs_ok ex_store2 ex_grid2"
  by (auto simp add: wf_grid_def refs_ok_def grid_refs_def)

theorem getScore_closed_form_witness:
  "getScore 2 ex_store2 ex_grid2 = Inr (ex_grid2\<lparr>highestTileLogValue := Some 4\<rparr>, Some (129 / 40))"
proof -
  have "score_sum [4, 3] 2 = 9 / 40"
    by (simp add: score_sum_def score_term_def power2_eq_square)
  then show ?thesis
    using getScore_closed_form [of ex_grid2 ex_store2 2] ex_grid2_ok ex_tile_values2 by simp
qed

theorem serialize_shape_witness:
  "\<exists>s. serialize ex_store ex_grid1 = Inr s \<and> snap_size s = 2 \<and> length (snap_cells s) = 2 \<and>
     (\<forall>row \<in> set (snap_cells s). length row = 2)"
  using serialize_shape [of ex_grid1 ex_store] ex_grid1_ok by simp

theorem Grid_short_state_witness:
  "\<exists>e. Grid 2 (Some [[None]]) ex_store = Inl e"
  using Grid_short_state [of "[[None]]" 2 ex_store] by simp

theorem cell_run_board_witness:
  "cell_run ex_store ex_grid [Insert 0, Remove 0] = Inr ex_grid \<and>
   board ex_store ex_grid = fold (\<lambda>op b. board_step 2 ex_store b op) [Insert 0, Remove 0] (board ex_store ex_grid)"
proof -
  have run: "cell_run ex_store ex_grid [Insert 0, Remove 0] = Inr ex_grid"
    by (simp add: cell_run_def insertTile_def removeTile_def get_tile_def js_write2_def js_row_def js_set_def)
  have wf: "wf_grid ex_grid" by (simp add: wf_grid_def)
  show ?thesis using cell_run_board [OF wf run] run by simp
qed

theorem fromState_serialize_witness:
  "\<exists>g h'. Grid 1 (Some [[Some \<lparr>tile_position = \<lparr>px = 0, py = 0\<rparr>, state_logValue = 5\<rparr>]]) ex_store = Inr (g, h') \<and>
     serialize h' g = Inr \<lparr>snap_size = 1, snap_cells = [[Some \<lparr>tile_position = \<lparr>px = 0, py = 0\<rparr>, state_logValue = 5\<rparr>]]\<rparr>"
proof -
  have ok: "store_ok ex_store" by (simp add: store_ok_def)
  show ?thesis
    using fromState_serialize [OF ok, of "[[Some \<lparr>tile_position = \<lparr>px = 0, py = 0\<rparr>, state_logValue = 5\<rparr>]]" 1] by simp
qed

theorem clone_serialize_witness:
  "\<exists>g2 h2. clone ex_store ex_grid1 = Inr (g2, h2) \<and> serialize h2 g2 = serialize ex_store ex_grid1"
  using clone_serialize [of ex_store ex_grid1] ex_grid1_inv by blast

theorem getScore_mset_witness:
  "map_sum id snd (getScore 2 ex_store ex_grid1) =
     map_sum id snd (getScore 2 ex_store (ex_grid\<lparr>cells := [[Some 0, None], [None, None]]\<rparr>)) \<and>
   map_sum id (highestTileLogValue \<circ> fst) (getScore 2 ex_store ex_grid1) =
     map_sum id (highestTileLogValue \<circ> fst) (getScore 2 ex_store (ex_grid\<lparr>cells := [[Some 0, None], [None, None]]\<rparr>))"
proof -
  have t: "tile_values ex_store (ex_grid\<lparr>cells := [[Some 0, None], [None, None]]\<rparr>) = [3]"
    by (simp add: tile_values_def region_values_def coords_def upt_rec js_get_def js_row_def cell_def)
  have ok: "wf_grid (ex_grid\<lparr>cells := [[Some 0, None], [None, None]]\<rparr>) \<and>
            refs_ok ex_store (ex_grid\<lparr>cells := [[Some 0, None], [None, None]]\<rparr>)"
    by (auto simp add: wf_grid_def refs_ok_def grid_refs_def)
  show ?thesis
    using getScore_mset [of ex_grid1 ex_store "ex_grid\<lparr>cells := [[Some 0, None], [None, None]]\<rparr>" ex_store 2]
      ex_grid1_ok ok ex_tile_values1 t by simp
qed



theorem randomAvailableCell_free_witness:
  "\<exists>x y. randomAvailableCell ex_grid1 0 = Inr (Some \<lparr>px = int x, py = int y\<rparr>) \<and>
     x < 2 \<and> y < 2 \<and> cell ex_grid1 x y = None"
proof -
  have c: "cell ex_grid1 0 0 = None" by (simp add: cell_def js_row_def js_get_def)
  show ?thesis using randomAvailableCell_free [of ex_grid1 0] ex_grid1_ok c by fastforce
qed

theorem fill_board_values_witness:
  "\<exists>g' h'. fill_board 1 (\<lambda>k. 0) ex_grid1 ex_store = Some (Inr (3, g', h')) \<and>
     board h' g' (0, 0) = Some \<lparr>tx = 0, ty = 0, logValue = 1\<rparr> \<and>
     board h' g' (1, 1) = Some \<lparr>tx = 1, ty = 1, logValue = 1\<rparr>"
proof -
  have d: "\<forall>k. 0 \<le> (\<lambda>k. 0::real) k \<and> (\<lambda>k. 0::real) k < 1" by simp
  obtain g' h' where f: "fill_board 1 (\<lambda>k. 0) ex_grid1 ex_store = Some (Inr (card (free_cells ex_grid1), g', h'))"
      "\<forall>p \<in> free_cells ex_grid1. board h' g' p = Some \<lparr>tx = int (fst p), ty = int (snd p), logValue = 1\<rparr>"
    using fill_board_values [of ex_store ex_grid1 "\<lambda>k. 0" 1] ex_grid1_inv d by blast
  then show ?thesis by (simp add: ex_free1)
qed

end
